theory Spec2Isabelle
  imports Main "HOL-Library.Sublist"
begin

section \<open>The TypeScript client generator of package apigen\<close>

text \<open>
  The generator (\<^verbatim>\<open>tsGenFile\<close> and its methods) accumulates the text of a TypeScript
  module in the field \<^verbatim>\<open>result\<close> and writes it to a file. Go strings are byte
  sequences, here \<^typ>\<open>string\<close>. The characters that Isabelle's string literals
  cannot hold are named first.
\<close>

abbreviation nl :: string where "nl \<equiv> [CHR 0x0A]"
abbreviation tab :: string where "tab \<equiv> [CHR 0x09]"
abbreviation sq :: string where "sq \<equiv> [CHR 0x27]"
abbreviation bq :: string where "bq \<equiv> [CHR 0x60]"

subsection \<open>The functions of Go's package strings that the generator calls\<close>

text \<open>
  \<^verbatim>\<open>strings.Index(s, substr)\<close>: the index of the first instance of \<^verbatim>\<open>substr\<close> in
  \<^verbatim>\<open>s\<close>, or -1.
\<close>

fun strings_Index :: "string \<Rightarrow> string \<Rightarrow> int" where
  "strings_Index [] substr = (if substr = [] then 0 else - 1)"
| "strings_Index (c # cs) substr =
     (if prefix substr (c # cs) then 0
      else (let i = strings_Index cs substr in if i < 0 then - 1 else i + 1))"

text \<open>\<^verbatim>\<open>strings.Contains(s, substr)\<close> is \<^verbatim>\<open>Index(s, substr) >= 0\<close>.\<close>

definition strings_Contains :: "string \<Rightarrow> string \<Rightarrow> bool" where
  "strings_Contains s substr = (0 \<le> strings_Index s substr)"

text \<open>
  \<^verbatim>\<open>strings.ReplaceAll(s, old, new)\<close>: every non-overlapping instance of \<^verbatim>\<open>old\<close>,
  found from left to right, is replaced by \<^verbatim>\<open>new\<close>. The scan \<open>replace_from\<close> is for a
  pattern that is not empty, \<open>o # os\<close>. For an empty pattern Go inserts \<^verbatim>\<open>new\<close> before
  every UTF-8 sequence and at the end; the generator never passes one, and the last equation
  gives Go's result on ASCII text.
\<close>

fun replace_from :: "string \<Rightarrow> string \<Rightarrow> nat \<Rightarrow> string \<Rightarrow> string" where
  "replace_from old new skip [] = []"
| "replace_from old new (Suc k) (c # cs) = replace_from old new k cs"
| "replace_from old new 0 (c # cs) =
     (if prefix old (c # cs) then new @ replace_from old new (length old - 1) cs
      else c # replace_from old new 0 cs)"

definition strings_ReplaceAll :: "string \<Rightarrow> string \<Rightarrow> string \<Rightarrow> string" where
  "strings_ReplaceAll s old new =
     (if old = [] then new @ concat (map (\<lambda>c. c # new) s)
      else replace_from old new 0 s)"

text \<open>
  \<^verbatim>\<open>strings.Trim(s, cutset)\<close>: \<^verbatim>\<open>s\<close> without its leading and trailing characters that
  are in \<^verbatim>\<open>cutset\<close>. The cutset of the generator is ASCII, for which bytes and code points
  agree.
\<close>

definition strings_Trim :: "string \<Rightarrow> string \<Rightarrow> string" where
  "strings_Trim s cutset =
     rev (dropWhile (\<lambda>c. c \<in> set cutset) (rev (dropWhile (\<lambda>c. c \<in> set cutset) s)))"

subsection \<open>The schema\<close>

text \<open>
  The schema types are declared elsewhere in the package; the generator reads these fields
  of them. \<open>'t\<close> is Go's \<^verbatim>\<open>reflect.Type\<close>. A \<^verbatim>\<open>nil\<close> request or response is \<open>None\<close>.
  \<^verbatim>\<open>fullEndpoint\<close> embeds \<^verbatim>\<open>Endpoint\<close>, whose fields are listed with its own.
\<close>

record 't Param =
  Name :: string
  Type :: 't

record 't fullEndpoint =
  Path :: string
  Method :: string
  TypeScriptName :: string
  Request :: "'t option"
  Response :: "'t option"
  PathParams :: "'t Param list"
  QueryParams :: "'t Param list"

record 't EndpointGroup =
  Prefix :: string
  endpoints :: "'t fullEndpoint list"

record 't API =
  Version :: string
  EndpointGroups :: "'t EndpointGroup list"

text \<open>The errors of a generation run.\<close>

datatype gen_error = SchemaConflictError | TemplateMismatchError | WriteError

text \<open>
  The functions of the package that the generator calls and that are declared in other
  files: the type registry \<^verbatim>\<open>Types\<close> (\<open>'r\<close>) with \<^verbatim>\<open>NewTypes\<close>, \<^verbatim>\<open>Register\<close> and
  \<^verbatim>\<open>GenerateTypescriptDefinitions\<close>, the naming of types, and the helpers of the schema.
  They are parameters of the model. \<^verbatim>\<open>Register\<close> returns nothing in Go; where it gives
  up, the run ends, which is \<open>Inl\<close> here. \<^verbatim>\<open>strings.ToUpper\<close> and
  \<^verbatim>\<open>strings.ToLower\<close> of Go's library map the letters of all of Unicode; they are
  parameters too, \<open>ToUpper\<close> and \<open>ToLower\<close>.
\<close>

record ('t, 'r) apigen =
  NewTypes :: 'r
  Register :: "'t \<Rightarrow> 'r \<Rightarrow> gen_error + 'r"
  GenerateTypescriptDefinitions :: "'r \<Rightarrow> string"
  TypescriptTypeName :: "'t \<Rightarrow> string"
  getElementaryType :: "'t \<Rightarrow> 't"
  requestType :: "'t fullEndpoint \<Rightarrow> 't"
  responseType :: "'t fullEndpoint \<Rightarrow> 't"
  namedType :: "'t Param \<Rightarrow> 't fullEndpoint \<Rightarrow> string \<Rightarrow> 't"
  capitalize :: "string \<Rightarrow> string"
  endpointBasePath :: "'t API \<Rightarrow> string"
  ToUpper :: "string \<Rightarrow> string"
  ToLower :: "string \<Rightarrow> string"

subsection \<open>The generator\<close>

record ('t, 'r) tsGenFile =
  result :: string
  path :: string
  api :: "'t API"
  types :: 'r

definition newTSGenFile :: "('t, 'r) apigen \<Rightarrow> string \<Rightarrow> 't API \<Rightarrow> ('t, 'r) tsGenFile" where
  "newTSGenFile D filepath a = \<lparr>result = [], path = filepath, api = a, types = NewTypes D\<rparr>"

text \<open>
  \<^verbatim>\<open>pf\<close> appends one formatted line. Every format of the generator has \<^verbatim>\<open>%s\<close> verbs only,
  so the formatted line is the concatenation that the caller passes here.
\<close>

definition pf :: "string \<Rightarrow> ('t, 'r) tsGenFile \<Rightarrow> ('t, 'r) tsGenFile" where
  "pf line f = f\<lparr>result := result f @ line @ nl\<rparr>"

text \<open>
  \<^verbatim>\<open>getArgsAndPath\<close>: the template is cut at its first \<^verbatim>\<open>{\<close>, the root path is put in
  front, one argument and one \<^verbatim>\<open>/${name}\<close> are appended per path parameter, one argument
  per query parameter, and \<^verbatim>\<open>//\<close> is replaced by \<^verbatim>\<open>/\<close>.
\<close>

definition getArgsAndPath :: "('t, 'r) apigen \<Rightarrow> 't fullEndpoint \<Rightarrow> string \<times> string" where
  "getArgsAndPath D method =
     (let i = strings_Index (Path method) ''{'';
          path0 = (if i > - 1 then take (nat i) (Path method) else Path method);
          path1 = ''${this.ROOT_PATH}'' @ path0;
          funcArgs0 = (if Request method \<noteq> None
                       then ''request: '' @ TypescriptTypeName D (requestType D method) @ '', ''
                       else []);
          (funcArgs1, path2) =
             foldl (\<lambda>(funcArgs, path) p.
                      (funcArgs @ Name p @ '': ''
                         @ TypescriptTypeName D (namedType D p method ''path'') @ '', '',
                       path @ ''/${'' @ Name p @ ''}''))
                   (funcArgs0, path1) (PathParams method);
          funcArgs2 =
             foldl (\<lambda>funcArgs p.
                      funcArgs @ Name p @ '': ''
                        @ TypescriptTypeName D (namedType D p method ''query'') @ '', '')
                   funcArgs1 (QueryParams method);
          path3 = strings_ReplaceAll path2 ''//'' ''/''
      in (strings_Trim funcArgs2 '', '', path3))"

text \<open>
  \<^verbatim>\<open>registerTypes\<close>: for every endpoint of every group, the request type, the response
  type and the elementary type of every query parameter are registered, in this order.
  The path parameters are not visited. \<open>register_step\<close> is one call of \<^verbatim>\<open>Register\<close>,
  \<open>registerTypes_method\<close> the body of the inner loop, \<open>register_sweep\<close> the two loops.
\<close>

definition register_step :: "('t, 'r) apigen \<Rightarrow> 't \<Rightarrow> gen_error + 'r \<Rightarrow> gen_error + 'r" where
  "register_step D t acc = (case acc of Inl e \<Rightarrow> Inl e | Inr r \<Rightarrow> Register D t r)"

definition registerTypes_method ::
  "('t, 'r) apigen \<Rightarrow> gen_error + 'r \<Rightarrow> 't fullEndpoint \<Rightarrow> gen_error + 'r" where
  "registerTypes_method D acc method =
     (let acc1 = (if Request method \<noteq> None
                  then register_step D (requestType D method) acc else acc);
          acc2 = (if Response method \<noteq> None
                  then register_step D (responseType D method) acc1 else acc1)
      in if length (QueryParams method) > 0
         then foldl (\<lambda>a p. register_step D
                               (getElementaryType D (namedType D p method ''query'')) a)
                    acc2 (QueryParams method)
         else acc2)"

definition register_sweep ::
  "('t, 'r) apigen \<Rightarrow> 't API \<Rightarrow> gen_error + 'r \<Rightarrow> gen_error + 'r" where
  "register_sweep D a acc0 =
     foldl (\<lambda>acc grp. foldl (registerTypes_method D) acc (endpoints grp))
           acc0 (EndpointGroups a)"

definition registerTypes ::
  "('t, 'r) apigen \<Rightarrow> ('t, 'r) tsGenFile \<Rightarrow> gen_error + ('t, 'r) tsGenFile" where
  "registerTypes D f =
     (case register_sweep D (api f) (Inr (types f)) of
        Inl e \<Rightarrow> Inl e
      | Inr r \<Rightarrow> Inr (f\<lparr>types := r\<rparr>))"

text \<open>
  \<^verbatim>\<open>createAPIClient\<close>: one class per group; \<open>createAPIClient_method\<close> is the body of its
  loop over the endpoints of the group.
\<close>

definition createAPIClient_method ::
  "('t, 'r) apigen \<Rightarrow> ('t, 'r) tsGenFile \<Rightarrow> 't fullEndpoint \<Rightarrow> ('t, 'r) tsGenFile" where
  "createAPIClient_method D f0 method =
     (let f1 = pf [] f0;
          (funcArgs, path) = getArgsAndPath D method;
          returnType = (if Response method \<noteq> None
                        then TypescriptTypeName D (responseType D method) else ''void'');
          returnStmt = ''return''
             @ (if Response method \<noteq> None
                then '' response.json().then((body) => body as '' @ returnType @ '')''
                else [])
             @ '';'';
          f2 = pf (tab @ ''public async '' @ TypeScriptName method @ ''('' @ funcArgs
                     @ ''): Promise<'' @ returnType @ ''> {'') f1;
          f3 = (if length (QueryParams method) > 0
                then pf (tab @ tab @ ''const fullPath = u.toString();'')
                       (foldl (\<lambda>f p. pf (tab @ tab @ ''u.searchParams.set('' @ sq @ Name p @ sq
                                            @ '', '' @ Name p @ '');'') f)
                              (pf (tab @ tab @ ''const u = new URL('' @ bq @ path @ bq @ '');'') f2)
                              (QueryParams method))
                else pf (tab @ tab @ ''const fullPath = '' @ bq @ path @ bq @ '';'') f2);
          f4 = (if Request method \<noteq> None
                then pf (tab @ tab @ ''const response = await this.http.''
                           @ ToLower D (Method method)
                           @ ''(fullPath, JSON.stringify(request));'') f3
                else pf (tab @ tab @ ''const response = await this.http.''
                           @ ToLower D (Method method) @ ''(fullPath);'') f3);
          f5 = pf (tab @ tab @ ''if (response.ok) {'') f4;
          f6 = pf (tab @ tab @ tab @ returnStmt) f5;
          f7 = pf (tab @ tab @ ''}'') f6;
          f8 = pf (tab @ tab @ ''const err = await response.json();'') f7;
          f9 = pf (tab @ tab @ ''throw new Error(err.error);'') f8
      in pf (tab @ ''}'') f9)"

definition createAPIClient ::
  "('t, 'r) apigen \<Rightarrow> 't EndpointGroup \<Rightarrow> ('t, 'r) tsGenFile \<Rightarrow> ('t, 'r) tsGenFile" where
  "createAPIClient D grp f0 =
     (let f1 = pf (nl @ ''export class '' @ capitalize D (Prefix grp) @ ''HttpApi''
                     @ ToUpper D (Version (api f0)) @ '' {'') f0;
          f2 = pf (tab @ ''private readonly http: HttpClient = new HttpClient();'') f1;
          f3 = pf (tab @ ''private readonly ROOT_PATH: string = '' @ sq
                     @ endpointBasePath D (api f0) @ ''/'' @ Prefix grp @ sq @ '';'') f2;
          f4 = foldl (createAPIClient_method D) f3 (endpoints grp)
      in pf ''}'' f4)"

text \<open>
  \<^verbatim>\<open>generateTS\<close>: the header, the registration of the types, their definitions, then the
  classes.
\<close>

definition generateTS ::
  "('t, 'r) apigen \<Rightarrow> ('t, 'r) tsGenFile \<Rightarrow> gen_error + ('t, 'r) tsGenFile" where
  "generateTS D f0 =
     (let f1 = pf ''// AUTOGENERATED BY private/apigen'' f0;
          f2 = pf ''// DO NOT EDIT.'' f1;
          f3 = pf [] f2;
          f4 = pf (''import { HttpClient } from '' @ sq @ ''@/utils/httpClient'' @ sq @ '';'') f3
      in case registerTypes D f4 of
           Inl e \<Rightarrow> Inl e
         | Inr f5 \<Rightarrow>
             (let f6 = f5\<lparr>result := result f5 @ GenerateTypescriptDefinitions D (types f5)\<rparr>
              in Inr (foldl (\<lambda>f grp. createAPIClient D grp f) f6
                            (EndpointGroups (api f6)))))"

text \<open>
  \<^verbatim>\<open>write\<close> (here \<open>tsGenFile_write\<close>, \<open>write\<close> being a keyword of Isabelle): the tabs of
  the result become four spaces, and the content goes to the file.
  The file system is a map from paths to contents; \<open>writable\<close> says where
  \<^verbatim>\<open>os.WriteFile\<close> succeeds.
\<close>

type_synonym filesystem = "string \<rightharpoonup> string"

definition os_WriteFile ::
  "(string \<Rightarrow> bool) \<Rightarrow> string \<Rightarrow> string \<Rightarrow> filesystem \<Rightarrow> gen_error + filesystem" where
  "os_WriteFile writable name content fs =
     (if writable name then Inr (fs(name \<mapsto> content)) else Inl WriteError)"

definition write_content :: "('t, 'r) tsGenFile \<Rightarrow> string" where
  "write_content f = strings_ReplaceAll (result f) tab ''    ''"

definition tsGenFile_write ::
  "(string \<Rightarrow> bool) \<Rightarrow> ('t, 'r) tsGenFile \<Rightarrow> filesystem \<Rightarrow> gen_error + filesystem" where
  "tsGenFile_write writable f fs = os_WriteFile writable (path f) (write_content f) fs"

text \<open>\<^verbatim>\<open>MustWriteTS\<close>: a run of the generator; a panic is \<open>Inl\<close>.\<close>

definition MustWriteTS ::
  "('t, 'r) apigen \<Rightarrow> (string \<Rightarrow> bool) \<Rightarrow> 't API \<Rightarrow> string \<Rightarrow> filesystem
     \<Rightarrow> gen_error + filesystem" where
  "MustWriteTS D writable a filepath fs =
     (case generateTS D (newTSGenFile D filepath a) of
        Inl e \<Rightarrow> Inl e
      | Inr f \<Rightarrow> tsGenFile_write writable f fs)"

subsection \<open>The type registry and the helpers of the schema, from the specification\<close>

text \<open>
  Modelled from the spec: the type registry (\<^verbatim>\<open>Types\<close>, \<^verbatim>\<open>NewTypes\<close>, \<^verbatim>\<open>Register\<close>,
  \<^verbatim>\<open>GenerateTypescriptDefinitions\<close>), \<^verbatim>\<open>TypescriptTypeName\<close>, \<^verbatim>\<open>getElementaryType\<close>,
  \<^verbatim>\<open>requestType\<close>, \<^verbatim>\<open>responseType\<close>, \<^verbatim>\<open>namedType\<close>, \<^verbatim>\<open>capitalize\<close> and
  \<^verbatim>\<open>endpointBasePath\<close> are missing from the sources at hand. A TypeRef is a primitive, a
  named composite with its fields in declaration order, an array, an optional, or an alias
  with its declared name.
\<close>

datatype TypeRef =
    Primitive string
  | Composite string "(string \<times> TypeRef) list"
  | ArrayOf TypeRef
  | OptionalOf TypeRef
  | Alias string TypeRef

text \<open>
  Modelled from the spec: the emitted name of a TypeRef. A composite and an alias emit
  their declared name; the name of an array or an optional is decided from the emitted name
  of its element, for which the spec gives no rule: TypeScript's forms are taken.
\<close>

fun EmittedName :: "TypeRef \<Rightarrow> string" where
  "EmittedName (Primitive n) = n"
| "EmittedName (Composite n fs) = n"
| "EmittedName (ArrayOf t) = EmittedName t @ ''[]''"
| "EmittedName (OptionalOf t) = EmittedName t @ '' | null''"
| "EmittedName (Alias n t) = n"

text \<open>
  Modelled from the spec: a registry entry has an emitted name, a kind and, for a composite,
  its fields with the emitted names of their types, in declaration order; for the other
  kinds \<open>element\<close> is the emitted name of the element type. The registry keeps its entries
  in the order of their first registration, each with the TypeRef it was created for.
\<close>

datatype Kind = AliasKind | CompositeKind | ArrayKind | OptionalKind

record RegisteredType =
  emitted :: string
  kind :: Kind
  composite_fields :: "(string \<times> string) list"
  element :: string

type_synonym Types = "(TypeRef \<times> RegisteredType) list"

fun entry_of :: "TypeRef \<Rightarrow> RegisteredType" where
  "entry_of (Composite n fs) =
     \<lparr>emitted = n, kind = CompositeKind,
      composite_fields = map (\<lambda>(fname, t). (fname, EmittedName t)) fs, element = []\<rparr>"
| "entry_of (ArrayOf t) =
     \<lparr>emitted = EmittedName (ArrayOf t), kind = ArrayKind, composite_fields = [],
      element = EmittedName t\<rparr>"
| "entry_of (OptionalOf t) =
     \<lparr>emitted = EmittedName (OptionalOf t), kind = OptionalKind, composite_fields = [],
      element = EmittedName t\<rparr>"
| "entry_of (Alias n t) =
     \<lparr>emitted = n, kind = AliasKind, composite_fields = [], element = EmittedName t\<rparr>"
| "entry_of (Primitive n) =
     \<lparr>emitted = n, kind = AliasKind, composite_fields = [], element = n\<rparr>"

text \<open>
  Modelled from the spec: an entry is created the first time its TypeRef is registered; a
  TypeRef that is registered already leaves the registry as it is; a new TypeRef whose
  emitted name another entry has is a conflict.
\<close>

definition enter :: "TypeRef \<Rightarrow> Types \<Rightarrow> gen_error + Types" where
  "enter t reg =
     (if t \<in> set (map fst reg) then Inr reg
      else if EmittedName t \<in> set (map (\<lambda>(k, e). emitted e) reg) then Inl SchemaConflictError
      else Inr (reg @ [(t, entry_of t)]))"

text \<open>
  Modelled from the spec: registration. The element type of an array, optional or alias,
  and the field types of a composite, are registered before the type itself. A primitive
  has no entry (the kinds of the registry are alias, composite, array and optional).
\<close>

fun register_type :: "TypeRef \<Rightarrow> Types \<Rightarrow> gen_error + Types"
  and register_fields :: "(string \<times> TypeRef) list \<Rightarrow> Types \<Rightarrow> gen_error + Types" where
  "register_type (Primitive n) reg = Inr reg"
| "register_type (Composite n fs) reg =
     (case register_fields fs reg of
        Inl e \<Rightarrow> Inl e
      | Inr reg1 \<Rightarrow> enter (Composite n fs) reg1)"
| "register_type (ArrayOf t) reg =
     (case register_type t reg of Inl e \<Rightarrow> Inl e | Inr reg1 \<Rightarrow> enter (ArrayOf t) reg1)"
| "register_type (OptionalOf t) reg =
     (case register_type t reg of Inl e \<Rightarrow> Inl e | Inr reg1 \<Rightarrow> enter (OptionalOf t) reg1)"
| "register_type (Alias n t) reg =
     (case register_type t reg of Inl e \<Rightarrow> Inl e | Inr reg1 \<Rightarrow> enter (Alias n t) reg1)"
| "register_fields [] reg = Inr reg"
| "register_fields (ft # fs) reg =
     (case register_type (snd ft) reg of
        Inl e \<Rightarrow> Inl e
      | Inr reg1 \<Rightarrow> register_fields fs reg1)"

text \<open>
  Modelled from the spec: the contract \<^verbatim>\<open>Register(TypeRef) -> EmittedName\<close>, with the
  registry passed and returned.
\<close>

definition TypeRegistry_Register :: "TypeRef \<Rightarrow> Types \<Rightarrow> gen_error + (string \<times> Types)" where
  "TypeRegistry_Register t reg =
     (case register_type t reg of Inl e \<Rightarrow> Inl e | Inr reg1 \<Rightarrow> Inr (EmittedName t, reg1))"

text \<open>
  Modelled from the spec: what every registry is that registrations have built from the
  empty one. No emitted name is used twice (two different declared structures never have
  the same emitted name), and every entry is the one of its TypeRef (the entries are
  immutable).
\<close>

definition wf_registry :: "Types \<Rightarrow> bool" where
  "wf_registry reg =
     (distinct (map (\<lambda>(k, e). emitted e) reg) \<and> list_all (\<lambda>(k, e). e = entry_of k) reg)"

text \<open>
  Modelled from the spec: the definitions of all registered types, in the order of their
  first registration, and their text. The spec leaves the text of a definition open:
  a composite is rendered as a class, an alias as a type, and an array or an optional, whose
  emitted name is a type expression of TypeScript, has no text.
\<close>

definition GenerateDefinitions :: "Types \<Rightarrow> RegisteredType list" where
  "GenerateDefinitions reg = map snd reg"

fun render_definition :: "RegisteredType \<Rightarrow> string" where
  "render_definition d =
     (case kind d of
        CompositeKind \<Rightarrow>
          nl @ ''export class '' @ emitted d @ '' {'' @ nl
            @ concat (map (\<lambda>(fname, tname). tab @ fname @ '': '' @ tname @ '';'' @ nl) (composite_fields d))
            @ ''}'' @ nl
      | AliasKind \<Rightarrow> nl @ ''export type '' @ emitted d @ '' = '' @ element d @ '';'' @ nl
      | ArrayKind \<Rightarrow> []
      | OptionalKind \<Rightarrow> [])"

definition TypeRegistry_GenerateTypescriptDefinitions :: "Types \<Rightarrow> string" where
  "TypeRegistry_GenerateTypescriptDefinitions reg =
     concat (map render_definition (GenerateDefinitions reg))"

text \<open>
  Modelled from the spec: a parameter type that wraps an elementary type is unwrapped to
  it; the wrappers are the arrays, optionals and aliases.
\<close>

fun TypeRef_getElementaryType :: "TypeRef \<Rightarrow> TypeRef" where
  "TypeRef_getElementaryType (ArrayOf t) = TypeRef_getElementaryType t"
| "TypeRef_getElementaryType (OptionalOf t) = TypeRef_getElementaryType t"
| "TypeRef_getElementaryType (Alias n t) = TypeRef_getElementaryType t"
| "TypeRef_getElementaryType t = t"

text \<open>
  \<^verbatim>\<open>strings.ToUpper\<close> and \<^verbatim>\<open>strings.ToLower\<close> on ASCII text, where they map the
  letters \<^verbatim>\<open>a\<close> to \<^verbatim>\<open>z\<close> and \<^verbatim>\<open>A\<close> to \<^verbatim>\<open>Z\<close> and keep every other character. The
  scenarios below have ASCII methods and versions only.
\<close>

definition to_upper_char :: "char \<Rightarrow> char" where
  "to_upper_char c =
     (let n = (of_char c :: nat) in if 97 \<le> n \<and> n \<le> 122 then char_of (n - 32) else c)"

definition to_lower_char :: "char \<Rightarrow> char" where
  "to_lower_char c =
     (let n = (of_char c :: nat) in if 65 \<le> n \<and> n \<le> 90 then char_of (n + 32) else c)"

definition ascii_ToUpper :: "string \<Rightarrow> string" where
  "ascii_ToUpper s = map to_upper_char s"

definition ascii_ToLower :: "string \<Rightarrow> string" where
  "ascii_ToLower s = map to_lower_char s"

text \<open>
  Modelled from the spec: the class identifier has the group's prefix with its first letter
  in upper case.
\<close>

fun TypeRef_capitalize :: "string \<Rightarrow> string" where
  "TypeRef_capitalize [] = []"
| "TypeRef_capitalize (c # cs) = to_upper_char c # cs"

text \<open>
  Modelled from the spec: the missing functions together, for a module-wide root path
  \<open>root\<close>. The request and response types are the endpoint's own (the generator asks for
  them where they are present only), and a parameter has its declared type. The two
  functions of Go's library are the ones for ASCII text.
\<close>

definition spec_apigen :: "string \<Rightarrow> (TypeRef, Types) apigen" where
  "spec_apigen root =
     \<lparr>NewTypes = [],
      Register = register_type,
      GenerateTypescriptDefinitions = TypeRegistry_GenerateTypescriptDefinitions,
      TypescriptTypeName = EmittedName,
      getElementaryType = TypeRef_getElementaryType,
      requestType = (\<lambda>m. case Request m of Some t \<Rightarrow> t | None \<Rightarrow> Primitive ''void''),
      responseType = (\<lambda>m. case Response m of Some t \<Rightarrow> t | None \<Rightarrow> Primitive ''void''),
      namedType = (\<lambda>p m place. Type p),
      capitalize = TypeRef_capitalize,
      endpointBasePath = (\<lambda>a. root),
      ToUpper = ascii_ToUpper,
      ToLower = ascii_ToLower\<rparr>"

subsection \<open>What the specification speaks of\<close>

text \<open>
  \<^verbatim>\<open>strings.Join\<close>: the elements with the separator between them.
\<close>

fun strings_Join :: "string list \<Rightarrow> string \<Rightarrow> string" where
  "strings_Join [] sep = []"
| "strings_Join [e] sep = e"
| "strings_Join (e # es) sep = e @ sep @ strings_Join es sep"

text \<open>
  A name that is not empty and neither begins nor ends with a comma or a space, as every
  identifier and every type name of TypeScript is.
\<close>

definition plain_name :: "string \<Rightarrow> bool" where
  "plain_name s = (s \<noteq> [] \<and> hd s \<notin> set '', '' \<and> last s \<notin> set '', '')"

text \<open>
  The names of the placeholders \<^verbatim>\<open>{name}\<close> of a template, in template order. The first
  argument is the name being read, if the scan is inside a placeholder.
\<close>

fun placeholders_from :: "string option \<Rightarrow> string \<Rightarrow> string list" where
  "placeholders_from cur [] = []"
| "placeholders_from None (c # cs) =
     (if c = CHR ''{'' then placeholders_from (Some []) cs else placeholders_from None cs)"
| "placeholders_from (Some n) (c # cs) =
     (if c = CHR ''}'' then n # placeholders_from None cs
      else placeholders_from (Some (n @ [c])) cs)"

definition placeholders :: "string \<Rightarrow> string list" where
  "placeholders template = placeholders_from None template"

text \<open>
  The types that the sweep of \<^verbatim>\<open>registerTypes\<close> hands to \<^verbatim>\<open>Register\<close>, in the order
  of the calls.
\<close>

definition method_types :: "('t, 'r) apigen \<Rightarrow> 't fullEndpoint \<Rightarrow> 't list" where
  "method_types D m =
     (if Request m \<noteq> None then [requestType D m] else [])
     @ (if Response m \<noteq> None then [responseType D m] else [])
     @ map (\<lambda>p. getElementaryType D (namedType D p m ''query'')) (QueryParams m)"

definition sweep_types :: "('t, 'r) apigen \<Rightarrow> 't API \<Rightarrow> 't list" where
  "sweep_types D a =
     concat (map (\<lambda>grp. concat (map (method_types D) (endpoints grp))) (EndpointGroups a))"

text \<open>
  The parameters that the specification gives the signature of an endpoint, each with its
  name and the name of its type: the request, then the path parameters, then the query
  parameters.
\<close>

definition signature_params :: "('t, 'r) apigen \<Rightarrow> 't fullEndpoint \<Rightarrow> (string \<times> string) list" where
  "signature_params D m =
     (if Request m \<noteq> None then [(''request'', TypescriptTypeName D (requestType D m))] else [])
     @ map (\<lambda>p. (Name p, TypescriptTypeName D (namedType D p m ''path''))) (PathParams m)
     @ map (\<lambda>p. (Name p, TypescriptTypeName D (namedType D p m ''query''))) (QueryParams m)"

definition render_param :: "string \<times> string \<Rightarrow> string" where
  "render_param np = fst np @ '': '' @ snd np"

text \<open>
  The parts of the text of a method: its signature, the call of the HTTP client, and the
  branches on the response.
\<close>

definition signature_line :: "('t, 'r) apigen \<Rightarrow> 't fullEndpoint \<Rightarrow> string" where
  "signature_line D m =
     tab @ ''public async '' @ TypeScriptName m @ ''('' @ fst (getArgsAndPath D m)
       @ ''): Promise<''
       @ (if Response m \<noteq> None then TypescriptTypeName D (responseType D m) else ''void'')
       @ ''> {'' @ nl"

definition dispatch_line :: "('t, 'r) apigen \<Rightarrow> 't fullEndpoint \<Rightarrow> string" where
  "dispatch_line D m =
     tab @ tab @ ''const response = await this.http.'' @ ToLower D (Method m)
       @ (if Request m \<noteq> None then ''(fullPath, JSON.stringify(request));''
          else ''(fullPath);'')
       @ nl"

definition guarded_branches :: "('t, 'r) apigen \<Rightarrow> 't fullEndpoint \<Rightarrow> string" where
  "guarded_branches D m =
     tab @ tab @ ''if (response.ok) {'' @ nl
       @ tab @ tab @ tab @ ''return''
       @ (if Response m \<noteq> None
          then '' response.json().then((body) => body as ''
                 @ TypescriptTypeName D (responseType D m) @ '')''
          else [])
       @ '';'' @ nl
       @ tab @ tab @ ''}'' @ nl
       @ tab @ tab @ ''const err = await response.json();'' @ nl
       @ tab @ tab @ ''throw new Error(err.error);'' @ nl
       @ tab @ ''}'' @ nl"

text \<open>
  The statements of a method that build the request path: the path expression alone, or
  the query assembly around it.
\<close>

definition path_lines :: "('t, 'r) apigen \<Rightarrow> 't fullEndpoint \<Rightarrow> string" where
  "path_lines D m =
     (if QueryParams m = []
      then tab @ tab @ ''const fullPath = '' @ bq @ snd (getArgsAndPath D m) @ bq @ '';'' @ nl
      else tab @ tab @ ''const u = new URL('' @ bq @ snd (getArgsAndPath D m) @ bq @ '');'' @ nl
        @ concat (map (\<lambda>p. tab @ tab @ ''u.searchParams.set('' @ sq @ Name p @ sq @ '', ''
                              @ Name p @ '');'' @ nl) (QueryParams m))
        @ tab @ tab @ ''const fullPath = u.toString();'' @ nl)"

text \<open>The text of a method, of a class, and of the header of the module.\<close>

definition method_text :: "('t, 'r) apigen \<Rightarrow> 't fullEndpoint \<Rightarrow> string" where
  "method_text D m =
     nl @ signature_line D m @ path_lines D m @ dispatch_line D m @ guarded_branches D m"

definition class_text :: "('t, 'r) apigen \<Rightarrow> 't API \<Rightarrow> 't EndpointGroup \<Rightarrow> string" where
  "class_text D a grp =
     nl @ ''export class '' @ capitalize D (Prefix grp) @ ''HttpApi''
       @ ToUpper D (Version a) @ '' {'' @ nl
       @ tab @ ''private readonly http: HttpClient = new HttpClient();'' @ nl
       @ tab @ ''private readonly ROOT_PATH: string = '' @ sq @ endpointBasePath D a @ ''/''
       @ Prefix grp @ sq @ '';'' @ nl
       @ concat (map (method_text D) (endpoints grp))
       @ ''}'' @ nl"

definition header_text :: string where
  "header_text =
     ''// AUTOGENERATED BY private/apigen'' @ nl @ ''// DO NOT EDIT.'' @ nl @ nl
       @ ''import { HttpClient } from '' @ sq @ ''@/utils/httpClient'' @ sq @ '';'' @ nl"

text \<open>The text of the module, for the registry that the sweep has filled.\<close>

definition module_text :: "('t, 'r) apigen \<Rightarrow> 't API \<Rightarrow> 'r \<Rightarrow> string" where
  "module_text D a t =
     header_text @ GenerateTypescriptDefinitions D t
       @ concat (map (class_text D a) (EndpointGroups a))"

text \<open>
  A template with every placeholder \<^verbatim>\<open>{name}\<close> replaced in place by the interpolation
  \<^verbatim>\<open>${name}\<close>, the rest kept.
\<close>

definition expand_in_place :: "string \<Rightarrow> string" where
  "expand_in_place template =
     concat (map (\<lambda>c. if c = CHR ''{'' then ''${'' else [c]) template)"

subsection \<open>The endpoints of the scenarios\<close>

definition id_param :: "TypeRef Param" where
  "id_param = \<lparr>Name = ''id'', Type = Primitive ''string''\<rparr>"

definition cursor_param :: "TypeRef Param" where
  "cursor_param = \<lparr>Name = ''cursor'', Type = Primitive ''string''\<rparr>"

definition User :: TypeRef where
  "User = Composite ''User'' [(''name'', Primitive ''string'')]"

definition buckets_endpoint :: "TypeRef fullEndpoint" where
  "buckets_endpoint =
     \<lparr>Path = ''/projects/{id}/buckets'', Method = ''GET'', TypeScriptName = ''getBuckets'',
      Request = None, Response = None, PathParams = [id_param], QueryParams = []\<rparr>"

definition GetUser :: "TypeRef fullEndpoint" where
  "GetUser =
     \<lparr>Path = ''/users/{id}'', Method = ''GET'', TypeScriptName = ''GetUser'',
      Request = None, Response = Some User, PathParams = [id_param], QueryParams = []\<rparr>"

definition users_group :: "TypeRef EndpointGroup" where
  "users_group = \<lparr>Prefix = ''users'', endpoints = [GetUser]\<rparr>"

definition users_api :: "TypeRef API" where
  "users_api = \<lparr>Version = ''v0'', EndpointGroups = [users_group]\<rparr>"

text \<open>
  A group without endpoints and the module that is written for it, a file system without
  files, and a disk that takes every file.
\<close>

definition empty_users_api :: "TypeRef API" where
  "empty_users_api =
     \<lparr>Version = ''v0'', EndpointGroups = [\<lparr>Prefix = ''users'', endpoints = []\<rparr>]\<rparr>"

definition empty_users_module :: string where
  "empty_users_module =
     ''// AUTOGENERATED BY private/apigen'' @ nl
       @ ''// DO NOT EDIT.'' @ nl
       @ nl
       @ ''import { HttpClient } from '' @ sq @ ''@/utils/httpClient'' @ sq @ '';'' @ nl
       @ nl
       @ ''export class UsersHttpApiV0 {'' @ nl
       @ ''    private readonly http: HttpClient = new HttpClient();'' @ nl
       @ ''    private readonly ROOT_PATH: string = '' @ sq @ ''/api/v0/users'' @ sq @ '';'' @ nl
       @ ''}'' @ nl"

definition no_files :: filesystem where
  "no_files = Map.empty"

definition always_writable :: "string \<Rightarrow> bool" where
  "always_writable name = True"

text \<open>
  An endpoint with a request, two path parameters, named as the placeholders of its
  template are, and a query parameter.
\<close>

definition project_param :: "TypeRef Param" where
  "project_param = \<lparr>Name = ''project'', Type = Primitive ''string''\<rparr>"

definition bucket_param :: "TypeRef Param" where
  "bucket_param = \<lparr>Name = ''bucket'', Type = Alias ''BucketName'' (Primitive ''string'')\<rparr>"

definition UpdateBucket :: "TypeRef fullEndpoint" where
  "UpdateBucket =
     \<lparr>Path = ''/buckets/{project}/{bucket}'', Method = ''PATCH'',
      TypeScriptName = ''updateBucket'', Request = Some User, Response = None,
      PathParams = [project_param, bucket_param], QueryParams = [cursor_param]\<rparr>"

text \<open>
  An endpoint whose path parameters are declared in the other order than the placeholders
  of its template.
\<close>

definition swapped_endpoint :: "TypeRef fullEndpoint" where
  "swapped_endpoint =
     \<lparr>Path = ''/buckets/{project}/{bucket}'', Method = ''GET'',
      TypeScriptName = ''getBucket'', Request = None, Response = None,
      PathParams = [bucket_param, project_param], QueryParams = []\<rparr>"




text \<open>
  Two endpoints whose placeholders and path parameters do not match: a placeholder without
  a parameter, and a parameter without a placeholder; and the module that is written for
  them.
\<close>

definition placeholder_only :: "TypeRef fullEndpoint" where
  "placeholder_only =
     \<lparr>Path = ''/users/{id}'', Method = ''GET'', TypeScriptName = ''getUser'',
      Request = None, Response = None, PathParams = [], QueryParams = []\<rparr>"

definition param_only :: "TypeRef fullEndpoint" where
  "param_only =
     \<lparr>Path = ''/users'', Method = ''GET'', TypeScriptName = ''listUsers'',
      Request = None, Response = None, PathParams = [id_param], QueryParams = []\<rparr>"

definition mismatch_api :: "TypeRef API" where
  "mismatch_api =
     \<lparr>Version = ''v0'',
      EndpointGroups = [\<lparr>Prefix = ''users'', endpoints = [placeholder_only, param_only]\<rparr>]\<rparr>"

definition mismatch_module :: string where
  "mismatch_module =
     ''// AUTOGENERATED BY private/apigen'' @ nl
       @ ''// DO NOT EDIT.'' @ nl
       @ nl
       @ ''import { HttpClient } from '' @ sq @ ''@/utils/httpClient'' @ sq @ '';'' @ nl
       @ nl
       @ ''export class UsersHttpApiV0 {'' @ nl
       @ ''    private readonly http: HttpClient = new HttpClient();'' @ nl
       @ ''    private readonly ROOT_PATH: string = '' @ sq @ ''/api/v0/users'' @ sq @ '';'' @ nl
       @ nl
       @ ''    public async getUser(): Promise<void> {'' @ nl
       @ ''        const fullPath = '' @ bq @ ''${this.ROOT_PATH}/users/'' @ bq @ '';'' @ nl
       @ ''        const response = await this.http.get(fullPath);'' @ nl
       @ ''        if (response.ok) {'' @ nl
       @ ''            return;'' @ nl
       @ ''        }'' @ nl
       @ ''        const err = await response.json();'' @ nl
       @ ''        throw new Error(err.error);'' @ nl
       @ ''    }'' @ nl
       @ nl
       @ ''    public async listUsers(id: string): Promise<void> {'' @ nl
       @ ''        const fullPath = '' @ bq @ ''${this.ROOT_PATH}/users/${id}'' @ bq @ '';'' @ nl
       @ ''        const response = await this.http.get(fullPath);'' @ nl
       @ ''        if (response.ok) {'' @ nl
       @ ''            return;'' @ nl
       @ ''        }'' @ nl
       @ ''        const err = await response.json();'' @ nl
       @ ''        throw new Error(err.error);'' @ nl
       @ ''    }'' @ nl
       @ ''}'' @ nl"

text \<open>
  An endpoint whose only parameter is a path parameter of a composite type, and the same
  endpoint with the parameter in the query.
\<close>

definition ProjectID :: TypeRef where
  "ProjectID = Composite ''ProjectID'' [(''value'', Primitive ''string'')]"

definition GetProject :: "TypeRef fullEndpoint" where
  "GetProject =
     \<lparr>Path = ''/{id}'', Method = ''GET'', TypeScriptName = ''getProject'',
      Request = None, Response = None,
      PathParams = [\<lparr>Name = ''id'', Type = ProjectID\<rparr>], QueryParams = []\<rparr>"

definition FindProject :: "TypeRef fullEndpoint" where
  "FindProject =
     \<lparr>Path = ''/find'', Method = ''GET'', TypeScriptName = ''findProject'',
      Request = None, Response = None,
      PathParams = [], QueryParams = [\<lparr>Name = ''id'', Type = ProjectID\<rparr>]\<rparr>"

text \<open>
  Two endpoints that have the composite \<^verbatim>\<open>User\<close> in their responses, one of them in an
  array.
\<close>

definition ListUsers :: "TypeRef fullEndpoint" where
  "ListUsers =
     \<lparr>Path = ''/users'', Method = ''GET'', TypeScriptName = ''ListUsers'',
      Request = None, Response = Some (ArrayOf User), PathParams = [], QueryParams = []\<rparr>"

definition two_users_api :: "TypeRef API" where
  "two_users_api =
     \<lparr>Version = ''v0'',
      EndpointGroups = [\<lparr>Prefix = ''users'', endpoints = [GetUser, ListUsers, GetUser]\<rparr>]\<rparr>"

definition projects_api :: "TypeRef fullEndpoint \<Rightarrow> TypeRef API" where
  "projects_api m =
     \<lparr>Version = ''v0'', EndpointGroups = [\<lparr>Prefix = ''projects'', endpoints = [m]\<rparr>]\<rparr>"

section \<open>The text that the generator emits\<close>

subsection \<open>Cutting the template and appending the parameters\<close>

lemma strings_Index_char:
  "strings_Index s [c]
     = (if c \<in> set s then int (length (takeWhile (\<lambda>x. x \<noteq> c) s)) else - 1)"
  by (induction s) (simp_all add: Let_def)

lemma take_before_char:
  "(if strings_Index s [c] > - 1 then take (nat (strings_Index s [c])) s else s)
     = takeWhile (\<lambda>x. x \<noteq> c) s"
proof (cases "c \<in> set s")
  case True
  have "take (length (takeWhile (\<lambda>x. x \<noteq> c) s)) s = takeWhile (\<lambda>x. x \<noteq> c) s"
    by (rule takeWhile_eq_take [symmetric])
  with True show ?thesis by (simp add: strings_Index_char)
next
  case False
  then have tw: "takeWhile (\<lambda>x. x \<noteq> c) s = s" by (induction s) auto
  from False show ?thesis unfolding strings_Index_char tw by simp
qed

lemma foldl_append_pair:
  "foldl (\<lambda>(a, b) x. (a @ A x, b @ B x)) (a0, b0) xs
     = (a0 @ concat (map A xs), b0 @ concat (map B xs))"
  by (induction xs arbitrary: a0 b0) simp_all

lemma foldl_append_one: "foldl (\<lambda>a x. a @ A x) a0 xs = a0 @ concat (map A xs)"
  by (induction xs arbitrary: a0) simp_all

lemma getArgsAndPath_eq:
  "getArgsAndPath D m =
     (strings_Trim (concat (map (\<lambda>np. render_param np @ '', '') (signature_params D m))) '', '',
      strings_ReplaceAll
        (''${this.ROOT_PATH}'' @ takeWhile (\<lambda>x. x \<noteq> CHR ''{'') (Path m)
           @ concat (map (\<lambda>p. ''/${'' @ Name p @ ''}'') (PathParams m)))
        ''//'' ''/'')"
  unfolding getArgsAndPath_def Let_def take_before_char foldl_append_pair
  by (simp add: foldl_append_one signature_params_def render_param_def comp_def)

subsection \<open>The lines of a method, a class and the module\<close>

lemma pf_upd: "pf line (f\<lparr>result := r\<rparr>) = f\<lparr>result := r @ line @ nl\<rparr>"
  by (simp add: pf_def)

lemma foldl_pf_upd:
  "foldl (\<lambda>f x. pf (L x) f) (f0\<lparr>result := r\<rparr>) xs
     = f0\<lparr>result := r @ concat (map (\<lambda>x. L x @ nl) xs)\<rparr>"
  by (induction xs arbitrary: r) (simp_all add: pf_upd)

lemma createAPIClient_method_upd:
  "createAPIClient_method D (f\<lparr>result := r\<rparr>) m = f\<lparr>result := r @ method_text D m\<rparr>"
  apply (simp only: createAPIClient_method_def Let_def split_def pf_upd foldl_pf_upd
      if_distrib [of "\<lambda>f. pf _ f"])
  apply (simp add: method_text_def path_lines_def signature_line_def dispatch_line_def
      guarded_branches_def)
  done

lemma createAPIClient_method_eq:
  "createAPIClient_method D f m = f\<lparr>result := result f @ method_text D m\<rparr>"
  using createAPIClient_method_upd [where D = D and f = f and r = "result f" and m = m]
  by simp

lemma foldl_createAPIClient_method_upd:
  "foldl (createAPIClient_method D) (f\<lparr>result := r\<rparr>) ms
     = f\<lparr>result := r @ concat (map (method_text D) ms)\<rparr>"
  by (induction ms arbitrary: r) (simp_all add: createAPIClient_method_upd)

lemma createAPIClient_upd:
  "createAPIClient D g (f\<lparr>result := r\<rparr>) = f\<lparr>result := r @ class_text D (api f) g\<rparr>"
  apply (simp only: createAPIClient_def Let_def pf_upd foldl_createAPIClient_method_upd)
  apply (simp add: class_text_def)
  done

lemma createAPIClient_eq:
  "createAPIClient D g f = f\<lparr>result := result f @ class_text D (api f) g\<rparr>"
  using createAPIClient_upd [where D = D and g = g and f = f and r = "result f"] by simp

lemma foldl_createAPIClient_upd:
  "foldl (\<lambda>f g. createAPIClient D g f) (f\<lparr>result := r\<rparr>) gs
     = f\<lparr>result := r @ concat (map (class_text D (api f)) gs)\<rparr>"
  by (induction gs arbitrary: r) (simp_all add: createAPIClient_upd)

lemma generateTS_eq:
  "generateTS D f =
     (case register_sweep D (api f) (Inr (types f)) of
        Inl e \<Rightarrow> Inl e
      | Inr t \<Rightarrow>
          Inr (f\<lparr>types := t, result := result f @ module_text D (api f) t\<rparr>))"
proof -
  have hdr: "pf (''import { HttpClient } from '' @ sq @ ''@/utils/httpClient'' @ sq @ '';'')
               (pf [] (pf ''// DO NOT EDIT.'' (pf ''// AUTOGENERATED BY private/apigen'' f)))
             = f\<lparr>result := result f @ header_text\<rparr>"
    by (simp add: pf_def header_text_def)
  have cls: "foldl (\<lambda>f g. createAPIClient D g f) (f\<lparr>types := t, result := r\<rparr>)
               (EndpointGroups (api f))
             = f\<lparr>types := t,
                 result := r @ concat (map (class_text D (api f)) (EndpointGroups (api f)))\<rparr>"
    for t r
    using foldl_createAPIClient_upd [where f = "f\<lparr>types := t\<rparr>" and D = D and r = r]
    by simp
  show ?thesis
    unfolding generateTS_def Let_def hdr registerTypes_def
    by (simp add: cls module_text_def split: sum.splits)
qed

lemma replace_from_single:
  "replace_from [t] new 0 s = concat (map (\<lambda>c. if c = t then new else [c]) s)"
  by (induction s) auto

lemma write_content_eq:
  "write_content f = concat (map (\<lambda>c. if c = CHR 0x09 then ''    '' else [c]) (result f))"
  by (simp add: write_content_def strings_ReplaceAll_def replace_from_single)

lemma MustWriteTS_eq:
  "MustWriteTS D writable a p fs =
     (case register_sweep D a (Inr (NewTypes D)) of
        Inl e \<Rightarrow> Inl e
      | Inr t \<Rightarrow>
          if writable p
          then Inr (fs(p \<mapsto> strings_ReplaceAll (module_text D a t) tab ''    ''))
          else Inl WriteError)"
  by (simp add: MustWriteTS_def generateTS_eq newTSGenFile_def tsGenFile_write_def
      os_WriteFile_def write_content_def split: sum.splits)

lemma run_empty_users_api:
  "MustWriteTS (spec_apigen ''/api/v0'') always_writable empty_users_api p fs
     = Inr (fs(p \<mapsto> empty_users_module))"
proof -
  have sweep: "register_sweep (spec_apigen ''/api/v0'') empty_users_api
                 (Inr (NewTypes (spec_apigen ''/api/v0''))) = Inr []"
    by code_simp
  have replaced: "strings_ReplaceAll (module_text (spec_apigen ''/api/v0'') empty_users_api [])
                tab ''    '' = empty_users_module"
    by code_simp
  show ?thesis
    by (simp only: MustWriteTS_eq sweep sum.case replaced always_writable_def if_True)
qed

subsection \<open>Replacing the double slashes\<close>

lemma strings_Contains_Cons:
  "strings_Contains (c # cs) sub = (prefix sub (c # cs) \<or> strings_Contains cs sub)"
  by (simp add: strings_Contains_def Let_def)

lemma no_slash_no_double:
  "CHR ''/'' \<notin> set s \<Longrightarrow> \<not> strings_Contains s ''//''"
  by (induction s) (auto simp: strings_Contains_Cons strings_Contains_def)

lemma no_double_append:
  assumes "\<not> strings_Contains x ''//''" and "\<not> strings_Contains y ''//''"
    and "x = [] \<or> last x \<noteq> CHR ''/'' \<or> y = [] \<or> hd y \<noteq> CHR ''/''"
  shows "\<not> strings_Contains (x @ y) ''//''"
  using assms
proof (induction x)
  case Nil
  then show ?case by simp
next
  case (Cons c x)
  show ?case
  proof (cases x)
    case Nil
    with Cons.prems show ?thesis
      by (cases y) (auto simp: strings_Contains_Cons)
  next
    case (Cons d x')
    with Cons.prems Cons.IH show ?thesis
      by (auto simp: strings_Contains_Cons)
  qed
qed

lemma replace_no_double:
  "\<not> strings_Contains s ''//'' \<Longrightarrow> replace_from ''//'' ''/'' 0 s = s"
  by (induction s) (auto simp: strings_Contains_Cons)

lemma replace_past_prefix:
  assumes "\<not> strings_Contains x ''//''" and "x = [] \<or> last x \<noteq> CHR ''/''"
  shows "replace_from ''//'' ''/'' 0 (x @ t) = x @ replace_from ''//'' ''/'' 0 t"
  using assms
proof (induction x)
  case Nil
  then show ?case by simp
next
  case (Cons c x)
  show ?case
  proof (cases x)
    case Nil
    with Cons.prems show ?thesis by (cases t) auto
  next
    case (Cons d x')
    with Cons.prems Cons.IH show ?thesis
      by (auto simp: strings_Contains_Cons)
  qed
qed

lemma replace_double: "replace_from ''//'' ''/'' 0 (''//'' @ t) = ''/'' @ replace_from ''//'' ''/'' 0 t"
  by simp

lemma no_double_interpolation:
  assumes "CHR ''/'' \<notin> set n"
  shows "\<not> strings_Contains (''/${'' @ n @ ''}'') ''//''"
proof -
  from assms have "CHR ''/'' \<notin> set (n @ ''}'')" by simp
  then have "\<not> strings_Contains (n @ ''}'') ''//''" by (rule no_slash_no_double)
  then show ?thesis by (simp add: strings_Contains_Cons)
qed

lemma no_double_interpolations:
  assumes "\<not> strings_Contains x ''//''" and "x \<noteq> []" and "last x \<noteq> CHR ''/''"
    and "\<forall>p\<in>set ps. CHR ''/'' \<notin> set (Name p)"
  shows "\<not> strings_Contains (x @ concat (map (\<lambda>p. ''/${'' @ Name p @ ''}'') ps)) ''//''"
  using assms
proof (induction ps arbitrary: x)
  case Nil
  then show ?case by simp
next
  case (Cons p ps)
  have "\<not> strings_Contains (x @ ''/${'' @ Name p @ ''}'') ''//''"
    using Cons.prems by (intro no_double_append no_double_interpolation) auto
  moreover have "x @ ''/${'' @ Name p @ ''}'' \<noteq> []" "last (x @ ''/${'' @ Name p @ ''}'') \<noteq> CHR ''/''"
    by simp_all
  ultimately have "\<not> strings_Contains
      ((x @ ''/${'' @ Name p @ ''}'') @ concat (map (\<lambda>p. ''/${'' @ Name p @ ''}'') ps)) ''//''"
    using Cons.prems by (intro Cons.IH) auto
  then show ?case by simp
qed

lemma expand_in_place_no_brace: "CHR ''{'' \<notin> set s \<Longrightarrow> expand_in_place s = s"
  by (induction s) (auto simp: expand_in_place_def)

lemma expand_in_place_append: "expand_in_place (x @ y) = expand_in_place x @ expand_in_place y"
  by (simp add: expand_in_place_def)

lemma expand_in_place_placeholders:
  assumes "\<forall>p\<in>set ps. CHR ''{'' \<notin> set (Name p)"
  shows "expand_in_place (concat (map (\<lambda>p. ''/{'' @ Name p @ ''}'') ps))
           = concat (map (\<lambda>p. ''/${'' @ Name p @ ''}'') ps)"
  using assms
proof (induction ps)
  case Nil
  then show ?case by (simp add: expand_in_place_def)
next
  case (Cons p ps)
  have "expand_in_place (''/{'' @ Name p @ ''}'') = ''/${'' @ expand_in_place (Name p) @ ''}''"
    by (simp add: expand_in_place_def)
  with Cons show ?case
    by (simp add: expand_in_place_append expand_in_place_no_brace del: append.simps)
qed

lemma root_prefix_no_double:
  assumes "\<not> strings_Contains pre ''//''"
  shows "\<not> strings_Contains (''${this.ROOT_PATH}'' @ pre) ''//''"
proof -
  have "\<not> strings_Contains ''${this.ROOT_PATH}'' ''//''" by code_simp
  with assms show ?thesis by (intro no_double_append) auto
qed

lemma path_of_trailing_placeholders:
  assumes tmpl: "Path m = pre @ concat (map (\<lambda>p. ''/{'' @ Name p @ ''}'') (PathParams m))"
    and pre: "CHR ''{'' \<notin> set pre" "\<not> strings_Contains pre ''//''"
      "pre = [] \<or> last pre \<noteq> CHR ''/''"
    and names: "\<forall>p\<in>set (PathParams m). CHR ''/'' \<notin> set (Name p)"
  shows "snd (getArgsAndPath D m)
           = ''${this.ROOT_PATH}'' @ pre
             @ concat (map (\<lambda>p. ''/${'' @ Name p @ ''}'') (PathParams m))"
proof (cases "PathParams m")
  case Nil
  with tmpl pre(1) have cut: "takeWhile (\<lambda>x. x \<noteq> CHR ''{'') (Path m) = pre"
    by auto
  have "replace_from ''//'' ''/'' 0 (''${this.ROOT_PATH}'' @ pre) = ''${this.ROOT_PATH}'' @ pre"
    using pre(2) by (intro replace_no_double root_prefix_no_double)
  with Nil cut show ?thesis
    by (simp add: getArgsAndPath_eq strings_ReplaceAll_def del: replace_from.simps)
next
  case (Cons p ps)
  let ?u = "\<lambda>p. ''/${'' @ Name p @ ''}''"
  from Cons tmpl have "Path m = pre @ ''/'' @ (CHR ''{'' # Name p @ ''}'' @ concat (map (\<lambda>p. ''/{'' @ Name p @ ''}'') ps))"
    by simp
  moreover from pre(1) have "\<And>x. x \<in> set pre \<Longrightarrow> x \<noteq> CHR ''{''" by auto
  ultimately have cut: "takeWhile (\<lambda>x. x \<noteq> CHR ''{'') (Path m) = pre @ ''/''"
    by (simp add: takeWhile_append2)
  have raw: "''${this.ROOT_PATH}'' @ takeWhile (\<lambda>x. x \<noteq> CHR ''{'') (Path m) @ concat (map ?u (PathParams m))
               = (''${this.ROOT_PATH}'' @ pre) @ ''//'' @ ((''${'' @ Name p @ ''}'') @ concat (map ?u ps))"
    using Cons cut by simp
  have 1: "\<not> strings_Contains (''${this.ROOT_PATH}'' @ pre) ''//''"
    using pre(2) by (rule root_prefix_no_double)
  have 2: "''${this.ROOT_PATH}'' @ pre = [] \<or> last (''${this.ROOT_PATH}'' @ pre) \<noteq> CHR ''/''"
    using pre(3) by (cases "pre = []") simp_all
  have "CHR ''/'' \<notin> set (''${'' @ Name p @ ''}'')"
    using names Cons by simp
  then have "\<not> strings_Contains (''${'' @ Name p @ ''}'') ''//''"
    by (rule no_slash_no_double)
  then have 3: "\<not> strings_Contains ((''${'' @ Name p @ ''}'') @ concat (map ?u ps)) ''//''"
    using names Cons by (intro no_double_interpolations) auto
  have "replace_from ''//'' ''/'' 0 ((''${this.ROOT_PATH}'' @ pre) @ ''//'' @ ((''${'' @ Name p @ ''}'') @ concat (map ?u ps)))
          = (''${this.ROOT_PATH}'' @ pre) @ ''/'' @ ((''${'' @ Name p @ ''}'') @ concat (map ?u ps))"
    by (simp only: replace_past_prefix [OF 1 2] replace_double replace_no_double [OF 3])
  then have "strings_ReplaceAll (''${this.ROOT_PATH}'' @ takeWhile (\<lambda>x. x \<noteq> CHR ''{'') (Path m) @ concat (map ?u (PathParams m))) ''//'' ''/''
          = (''${this.ROOT_PATH}'' @ pre) @ ''/'' @ ((''${'' @ Name p @ ''}'') @ concat (map ?u ps))"
    by (simp only: raw strings_ReplaceAll_def) simp
  then show ?thesis
    using Cons by (simp add: getArgsAndPath_eq)
qed

subsection \<open>Trimming the arguments\<close>

lemma concat_sep_eq_Join:
  "es \<noteq> [] \<Longrightarrow> concat (map (\<lambda>e. e @ sep) es) = strings_Join es sep @ sep"
  by (induction es sep rule: strings_Join.induct) simp_all

lemma hd_strings_Join: "es \<noteq> [] \<Longrightarrow> hd es \<noteq> [] \<Longrightarrow> hd (strings_Join es sep) = hd (hd es)"
  by (induction es sep rule: strings_Join.induct) simp_all

lemma strings_Join_not_empty_last:
  "es \<noteq> [] \<Longrightarrow> last es \<noteq> [] \<Longrightarrow> strings_Join es sep \<noteq> []"
  by (induction es sep rule: strings_Join.induct) simp_all

lemma last_strings_Join:
  "es \<noteq> [] \<Longrightarrow> last es \<noteq> [] \<Longrightarrow> last (strings_Join es sep) = last (last es)"
proof (induction es sep rule: strings_Join.induct)
  case (3 e v va sep)
  then have "strings_Join (v # va) sep \<noteq> []"
    by (intro strings_Join_not_empty_last) auto
  with 3 show ?case by (simp add: last_append)
qed simp_all

lemma strings_Join_not_empty: "es \<noteq> [] \<Longrightarrow> hd es \<noteq> [] \<Longrightarrow> strings_Join es sep \<noteq> []"
  by (induction es sep rule: strings_Join.induct) simp_all

lemma Trim_comma_space:
  assumes "j \<noteq> []" and "hd j \<notin> set '', ''" and "last j \<notin> set '', ''"
  shows "strings_Trim (j @ '', '') '', '' = j"
proof -
  from assms(1,2) have front: "dropWhile (\<lambda>c. c \<in> set '', '') (j @ '', '') = j @ '', ''"
    by (cases j) auto
  from assms(1,3) have behind: "dropWhile (\<lambda>c. c \<in> set '', '') (rev j) = rev j"
    by (cases j rule: rev_cases) auto
  show ?thesis
    unfolding strings_Trim_def front
    using behind by simp
qed

lemma hd_render_param: "fst np \<noteq> [] \<Longrightarrow> hd (render_param np) = hd (fst np)"
  by (simp add: render_param_def)

lemma last_render_param: "snd np \<noteq> [] \<Longrightarrow> last (render_param np) = last (snd np)"
  by (simp add: render_param_def)

lemma render_param_not_empty: "render_param np \<noteq> []"
  by (simp add: render_param_def)

lemma Trim_rendered_params:
  assumes "\<forall>np\<in>set sp. plain_name (fst np) \<and> plain_name (snd np)"
  shows "strings_Trim (concat (map (\<lambda>np. render_param np @ '', '') sp)) '', ''
           = strings_Join (map render_param sp) '', ''"
proof (cases "sp = []")
  case True
  then show ?thesis by (simp add: strings_Trim_def)
next
  case False
  let ?es = "map render_param sp"
  let ?j = "strings_Join ?es '', ''"
  from False have es: "?es \<noteq> []" by simp
  from False have hd_es: "hd ?es = render_param (hd sp)" and last_es: "last ?es = render_param (last sp)"
    by (simp_all add: hd_map last_map)
  from False assms have first: "plain_name (fst (hd sp))" and final: "plain_name (snd (last sp))"
    by simp_all
  have "concat (map (\<lambda>np. render_param np @ '', '') sp) = concat (map (\<lambda>e. e @ '', '') ?es)"
    by (simp add: comp_def)
  also have "\<dots> = ?j @ '', ''"
    using es by (rule concat_sep_eq_Join)
  finally have joined: "concat (map (\<lambda>np. render_param np @ '', '') sp) = ?j @ '', ''" .
  have "?j \<noteq> []"
    using es by (rule strings_Join_not_empty) (simp add: hd_es render_param_not_empty)
  moreover have "hd ?j = hd (fst (hd sp))"
    using first
    by (simp only: hd_strings_Join [OF es] hd_es render_param_not_empty not_False_eq_True
        hd_render_param plain_name_def)
  moreover have "last ?j = last (snd (last sp))"
    using final
    by (simp only: last_strings_Join [OF es] last_es render_param_not_empty not_False_eq_True
        last_render_param plain_name_def)
  ultimately have "strings_Trim (?j @ '', '') '', '' = ?j"
    using first final by (intro Trim_comma_space) (simp_all add: plain_name_def)
  with joined show ?thesis by simp
qed


subsection \<open>The methods of a module\<close>

lemma concat_map_member:
  assumes "x \<in> set xs"
  shows "\<exists>a b. concat (map f xs) = a @ f x @ b"
proof -
  from assms obtain ys zs where "xs = ys @ x # zs" by (auto simp: in_set_conv_decomp)
  then have "concat (map f xs) = concat (map f ys) @ f x @ concat (map f zs)" by simp
  then show ?thesis by blast
qed

lemma replace_tab_append:
  "strings_ReplaceAll (x @ y) tab new = strings_ReplaceAll x tab new @ strings_ReplaceAll y tab new"
  by (simp add: strings_ReplaceAll_def replace_from_single)

lemma module_text_has_method:
  assumes "grp \<in> set (EndpointGroups a)" and "m \<in> set (endpoints grp)"
  shows "\<exists>before after. module_text D a r = before @ method_text D m @ after"
proof -
  from assms(2) obtain a1 b1
    where "concat (map (method_text D) (endpoints grp)) = a1 @ method_text D m @ b1"
    using concat_map_member by metis
  then obtain a2 b2 where c: "class_text D a grp = a2 @ method_text D m @ b2"
    unfolding class_text_def by (metis append.assoc)
  from assms(1) obtain a3 b3
    where "concat (map (class_text D a) (EndpointGroups a)) = a3 @ class_text D a grp @ b3"
    using concat_map_member by metis
  with c have "module_text D a r
      = (header_text @ GenerateTypescriptDefinitions D r @ a3 @ a2) @ method_text D m @ (b2 @ b3)"
    by (simp add: module_text_def)
  then show ?thesis by blast
qed


subsection \<open>The registry of the specification\<close>

lemma enter_keys:
  "enter t reg = Inr reg' \<Longrightarrow> set (map fst reg') = insert t (set (map fst reg))"
  by (auto simp: enter_def split: if_splits)

lemma enter_keys_mono:
  assumes "register_type t reg = Inr r" and "enter u r = Inr reg'"
    and "set (map fst reg) \<subseteq> set (map fst r)"
  shows "set (map fst reg) \<subseteq> set (map fst reg')"
  using assms(3) enter_keys [OF assms(2)] by auto

lemma register_keys_mono:
  "register_type t reg = Inr reg' \<Longrightarrow> set (map fst reg) \<subseteq> set (map fst reg')"
  "register_fields fs reg = Inr reg' \<Longrightarrow> set (map fst reg) \<subseteq> set (map fst reg')"
proof (induction t reg and fs reg arbitrary: reg' and reg'
    rule: register_type_register_fields.induct)
  case (1 n reg)
  then show ?case by simp
next
  case (2 n fs reg)
  from "2.prems" obtain r where r: "register_fields fs reg = Inr r"
    and e: "enter (Composite n fs) r = Inr reg'"
    by (cases "register_fields fs reg") simp_all
  from r have "set (map fst reg) \<subseteq> set (map fst r)" by (rule "2.IH")
  with enter_keys [OF e] show ?case by auto
next
  case (3 t reg)
  from "3.prems" obtain r where r: "register_type t reg = Inr r"
    and e: "enter (ArrayOf t) r = Inr reg'"
    by (cases "register_type t reg") simp_all
  from r have "set (map fst reg) \<subseteq> set (map fst r)" by (rule "3.IH")
  with enter_keys [OF e] show ?case by auto
next
  case (4 t reg)
  from "4.prems" obtain r where r: "register_type t reg = Inr r"
    and e: "enter (OptionalOf t) r = Inr reg'"
    by (cases "register_type t reg") simp_all
  from r have "set (map fst reg) \<subseteq> set (map fst r)" by (rule "4.IH")
  with enter_keys [OF e] show ?case by auto
next
  case (5 n t reg)
  from "5.prems" obtain r where r: "register_type t reg = Inr r"
    and e: "enter (Alias n t) r = Inr reg'"
    by (cases "register_type t reg") simp_all
  from r have "set (map fst reg) \<subseteq> set (map fst r)" by (rule "5.IH")
  with enter_keys [OF e] show ?case by auto
next
  case (6 reg)
  then show ?case by simp
next
  case (7 ft fs reg)
  from "7.prems" obtain r where r: "register_type (snd ft) reg = Inr r"
    and rest: "register_fields fs r = Inr reg'"
    by (cases "register_type (snd ft) reg") simp_all
  from r have "set (map fst reg) \<subseteq> set (map fst r)" by (rule "7.IH"(1))
  moreover from r rest have "set (map fst r) \<subseteq> set (map fst reg')" by (rule "7.IH"(2))
  ultimately show ?case by auto
qed

lemma register_key_present:
  assumes "register_type t reg = Inr reg'" and "\<And>p. t \<noteq> Primitive p"
  shows "t \<in> set (map fst reg')"
proof (cases t)
  case (Primitive p)
  with assms(2) [of p] show ?thesis by blast
next
  case (Composite n fs)
  with assms(1) obtain r where "enter t r = Inr reg'"
    by (cases "register_fields fs reg") simp_all
  from enter_keys [OF this] show ?thesis by simp
next
  case (ArrayOf u)
  with assms(1) obtain r where "enter t r = Inr reg'"
    by (cases "register_type u reg") simp_all
  from enter_keys [OF this] show ?thesis by simp
next
  case (OptionalOf u)
  with assms(1) obtain r where "enter t r = Inr reg'"
    by (cases "register_type u reg") simp_all
  from enter_keys [OF this] show ?thesis by simp
next
  case (Alias n u)
  with assms(1) obtain r where "enter t r = Inr reg'"
    by (cases "register_type u reg") simp_all
  from enter_keys [OF this] show ?thesis by simp
qed

lemma enter_present: "t \<in> set (map fst reg) \<Longrightarrow> enter t reg = Inr reg"
  by (simp add: enter_def)

lemma register_again:
  "register_type t reg = Inr reg1 \<Longrightarrow> set (map fst reg1) \<subseteq> set (map fst reg2)
     \<Longrightarrow> register_type t reg2 = Inr reg2"
  "register_fields fs reg = Inr reg1 \<Longrightarrow> set (map fst reg1) \<subseteq> set (map fst reg2)
     \<Longrightarrow> register_fields fs reg2 = Inr reg2"
proof (induction t reg and fs reg arbitrary: reg1 reg2 and reg1 reg2
    rule: register_type_register_fields.induct)
  case (1 n reg)
  then show ?case by simp
next
  case (2 n fs reg)
  from "2.prems"(1) obtain r where r: "register_fields fs reg = Inr r"
    and e: "enter (Composite n fs) r = Inr reg1"
    by (cases "register_fields fs reg") simp_all
  from e have k: "set (map fst reg1) = insert (Composite n fs) (set (map fst r))"
    by (rule enter_keys)
  with "2.prems"(2) have "set (map fst r) \<subseteq> set (map fst reg2)" by auto
  with r have "register_fields fs reg2 = Inr reg2" by (rule "2.IH")
  moreover from k "2.prems"(2) have "enter (Composite n fs) reg2 = Inr reg2"
    by (intro enter_present) auto
  ultimately show ?case by simp
next
  case (3 t reg)
  from "3.prems"(1) obtain r where r: "register_type t reg = Inr r"
    and e: "enter (ArrayOf t) r = Inr reg1"
    by (cases "register_type t reg") simp_all
  from e have k: "set (map fst reg1) = insert (ArrayOf t) (set (map fst r))"
    by (rule enter_keys)
  with "3.prems"(2) have "set (map fst r) \<subseteq> set (map fst reg2)" by auto
  with r have "register_type t reg2 = Inr reg2" by (rule "3.IH")
  moreover from k "3.prems"(2) have "enter (ArrayOf t) reg2 = Inr reg2"
    by (intro enter_present) auto
  ultimately show ?case by simp
next
  case (4 t reg)
  from "4.prems"(1) obtain r where r: "register_type t reg = Inr r"
    and e: "enter (OptionalOf t) r = Inr reg1"
    by (cases "register_type t reg") simp_all
  from e have k: "set (map fst reg1) = insert (OptionalOf t) (set (map fst r))"
    by (rule enter_keys)
  with "4.prems"(2) have "set (map fst r) \<subseteq> set (map fst reg2)" by auto
  with r have "register_type t reg2 = Inr reg2" by (rule "4.IH")
  moreover from k "4.prems"(2) have "enter (OptionalOf t) reg2 = Inr reg2"
    by (intro enter_present) auto
  ultimately show ?case by simp
next
  case (5 n t reg)
  from "5.prems"(1) obtain r where r: "register_type t reg = Inr r"
    and e: "enter (Alias n t) r = Inr reg1"
    by (cases "register_type t reg") simp_all
  from e have k: "set (map fst reg1) = insert (Alias n t) (set (map fst r))"
    by (rule enter_keys)
  with "5.prems"(2) have "set (map fst r) \<subseteq> set (map fst reg2)" by auto
  with r have "register_type t reg2 = Inr reg2" by (rule "5.IH")
  moreover from k "5.prems"(2) have "enter (Alias n t) reg2 = Inr reg2"
    by (intro enter_present) auto
  ultimately show ?case by simp
next
  case (6 reg)
  then show ?case by simp
next
  case (7 ft fs reg)
  from "7.prems"(1) obtain r where r: "register_type (snd ft) reg = Inr r"
    and rest: "register_fields fs r = Inr reg1"
    by (cases "register_type (snd ft) reg") simp_all
  from rest have "set (map fst r) \<subseteq> set (map fst reg1)" by (rule register_keys_mono)
  with "7.prems"(2) have "set (map fst r) \<subseteq> set (map fst reg2)" by auto
  with r have 1: "register_type (snd ft) reg2 = Inr reg2" by (rule "7.IH"(1))
  from r rest "7.prems"(2) have "register_fields fs reg2 = Inr reg2" by (rule "7.IH"(2))
  with 1 show ?case by simp
qed

lemma enter_wf:
  assumes "wf_registry reg" and "enter t reg = Inr reg'"
  shows "wf_registry reg'"
proof (cases "t \<in> set (map fst reg)")
  case True
  with assms show ?thesis by (simp add: enter_def)
next
  case False
  with assms(2) have fresh: "EmittedName t \<notin> set (map (\<lambda>(k, e). emitted e) reg)"
    and reg': "reg' = reg @ [(t, entry_of t)]"
    by (auto simp: enter_def split: if_splits)
  have "emitted (entry_of t) = EmittedName t" by (cases t) simp_all
  with fresh assms(1) show ?thesis
    unfolding reg' wf_registry_def by simp
qed

lemma register_wf:
  "wf_registry reg \<Longrightarrow> register_type t reg = Inr reg' \<Longrightarrow> wf_registry reg'"
  "wf_registry reg \<Longrightarrow> register_fields fs reg = Inr reg' \<Longrightarrow> wf_registry reg'"
proof (induction t reg and fs reg arbitrary: reg' and reg'
    rule: register_type_register_fields.induct)
  case (1 n reg)
  then show ?case by simp
next
  case (2 n fs reg)
  from "2.prems"(2) obtain r where r: "register_fields fs reg = Inr r"
    and e: "enter (Composite n fs) r = Inr reg'"
    by (cases "register_fields fs reg") simp_all
  from "2.prems"(1) r have "wf_registry r" by (rule "2.IH")
  then show ?case using e by (rule enter_wf)
next
  case (3 t reg)
  from "3.prems"(2) obtain r where r: "register_type t reg = Inr r"
    and e: "enter (ArrayOf t) r = Inr reg'"
    by (cases "register_type t reg") simp_all
  from "3.prems"(1) r have "wf_registry r" by (rule "3.IH")
  then show ?case using e by (rule enter_wf)
next
  case (4 t reg)
  from "4.prems"(2) obtain r where r: "register_type t reg = Inr r"
    and e: "enter (OptionalOf t) r = Inr reg'"
    by (cases "register_type t reg") simp_all
  from "4.prems"(1) r have "wf_registry r" by (rule "4.IH")
  then show ?case using e by (rule enter_wf)
next
  case (5 n t reg)
  from "5.prems"(2) obtain r where r: "register_type t reg = Inr r"
    and e: "enter (Alias n t) r = Inr reg'"
    by (cases "register_type t reg") simp_all
  from "5.prems"(1) r have "wf_registry r" by (rule "5.IH")
  then show ?case using e by (rule enter_wf)
next
  case (6 reg)
  then show ?case by simp
next
  case (7 ft fs reg)
  from "7.prems"(2) obtain r where r: "register_type (snd ft) reg = Inr r"
    and rest: "register_fields fs r = Inr reg'"
    by (cases "register_type (snd ft) reg") simp_all
  from "7.prems"(1) r have "wf_registry r" by (rule "7.IH"(1))
  with r show ?case using rest by (rule "7.IH"(2))
qed

lemma one_with_distinct_image:
  assumes "distinct (map f xs)" and "x \<in> set xs"
  shows "length (filter (\<lambda>y. f y = f x) xs) = 1"
  using assms
proof (induction xs)
  case Nil
  then show ?case by simp
next
  case (Cons a xs)
  show ?case
  proof (cases "a = x")
    case True
    with Cons.prems(1) have "f x \<notin> f ` set xs" by simp
    then have "filter (\<lambda>y. f y = f x) xs = []"
      unfolding filter_empty_conv by (metis imageI)
    with True show ?thesis by simp
  next
    case False
    with Cons.prems have "x \<in> set xs" and "f a \<noteq> f x" and "distinct (map f xs)"
      by auto
    with Cons.IH show ?thesis by simp
  qed
qed

lemma one_definition:
  assumes "wf_registry reg" and "t \<in> set (map fst reg)"
  shows "length (filter (\<lambda>d. emitted d = EmittedName t) (GenerateDefinitions reg)) = 1"
proof -
  from assms(2) obtain e where mem: "(t, e) \<in> set reg" by auto
  with assms(1) have e: "e = entry_of t"
    by (auto simp: wf_registry_def list_all_iff)
  have em: "emitted (entry_of t) = EmittedName t" by (cases t) simp_all
  from assms(1) have "distinct (map (\<lambda>ke. emitted (snd ke)) reg)"
    by (simp add: wf_registry_def split_def)
  from one_with_distinct_image [OF this mem]
  have "length (filter (\<lambda>ke. emitted (snd ke) = EmittedName t) reg) = 1"
    by (simp add: e em)
  moreover have "filter (\<lambda>d. emitted d = EmittedName t) (map snd reg)
      = map snd (filter (\<lambda>ke. emitted (snd ke) = EmittedName t) reg)"
    by (simp add: filter_map comp_def)
  ultimately show ?thesis by (simp add: GenerateDefinitions_def)
qed

subsection \<open>The sweep of the registration\<close>

lemma register_step_Inl [simp]: "register_step D t (Inl e) = Inl e"
  by (simp add: register_step_def)

lemma foldl_register_step_Inl [simp]:
  "foldl (\<lambda>acc t. register_step D t acc) (Inl e) ts = Inl e"
  by (induction ts) simp_all

lemma registerTypes_method_eq:
  "registerTypes_method D acc m = foldl (\<lambda>acc t. register_step D t acc) acc (method_types D m)"
  by (simp add: registerTypes_method_def method_types_def Let_def foldl_map)

lemma foldl_registerTypes_method_eq:
  "foldl (registerTypes_method D) acc ms
     = foldl (\<lambda>acc t. register_step D t acc) acc (concat (map (method_types D) ms))"
  by (induction ms arbitrary: acc) (simp_all add: registerTypes_method_eq)

lemma register_sweep_eq:
  "register_sweep D a acc = foldl (\<lambda>acc t. register_step D t acc) acc (sweep_types D a)"
proof -
  have "foldl (\<lambda>acc grp. foldl (registerTypes_method D) acc (endpoints grp)) acc gs
          = foldl (\<lambda>acc t. register_step D t acc) acc
              (concat (map (\<lambda>grp. concat (map (method_types D) (endpoints grp))) gs))" for gs
    by (induction gs arbitrary: acc) (simp_all add: foldl_registerTypes_method_eq)
  then show ?thesis by (simp add: register_sweep_def sweep_types_def)
qed

lemma register_step_spec:
  "register_step (spec_apigen root) t (Inr reg) = register_type t reg"
  by (simp add: register_step_def spec_apigen_def)

lemma register_all_keys_mono:
  "foldl (\<lambda>acc t. register_step (spec_apigen root) t acc) (Inr reg) ts = Inr reg'
     \<Longrightarrow> set (map fst reg) \<subseteq> set (map fst reg')"
proof (induction ts arbitrary: reg)
  case Nil
  then show ?case by simp
next
  case (Cons t ts)
  show ?case
  proof (cases "register_type t reg")
    case (Inl e)
    with Cons.prems show ?thesis by (simp add: register_step_spec)
  next
    case (Inr r)
    with Cons.prems
    have "foldl (\<lambda>acc t. register_step (spec_apigen root) t acc) (Inr r) ts = Inr reg'"
      by (simp add: register_step_spec)
    then have "set (map fst r) \<subseteq> set (map fst reg')" by (rule Cons.IH)
    moreover from Inr have "set (map fst reg) \<subseteq> set (map fst r)" by (rule register_keys_mono)
    ultimately show ?thesis by auto
  qed
qed

lemma register_all_again:
  "foldl (\<lambda>acc t. register_step (spec_apigen root) t acc) (Inr reg) ts = Inr reg1
     \<Longrightarrow> set (map fst reg1) \<subseteq> set (map fst reg2)
     \<Longrightarrow> foldl (\<lambda>acc t. register_step (spec_apigen root) t acc) (Inr reg2) ts = Inr reg2"
proof (induction ts arbitrary: reg)
  case Nil
  then show ?case by simp
next
  case (Cons t ts)
  show ?case
  proof (cases "register_type t reg")
    case (Inl e)
    with Cons.prems(1) show ?thesis by (simp add: register_step_spec)
  next
    case (Inr r)
    with Cons.prems(1)
    have rest: "foldl (\<lambda>acc t. register_step (spec_apigen root) t acc) (Inr r) ts = Inr reg1"
      by (simp add: register_step_spec)
    then have "set (map fst r) \<subseteq> set (map fst reg1)" by (rule register_all_keys_mono)
    with Cons.prems(2) have "set (map fst r) \<subseteq> set (map fst reg2)" by auto
    with Inr have "register_type t reg2 = Inr reg2" by (rule register_again)
    moreover from rest Cons.prems(2)
    have "foldl (\<lambda>acc t. register_step (spec_apigen root) t acc) (Inr reg2) ts = Inr reg2"
      by (rule Cons.IH)
    ultimately show ?thesis by (simp add: register_step_spec)
  qed
qed

lemma registerTypes_again:
  assumes "registerTypes (spec_apigen root) f = Inr f1"
  shows "registerTypes (spec_apigen root) f1 = Inr f1"
proof -
  from assms obtain r
    where r: "register_sweep (spec_apigen root) (api f) (Inr (types f)) = Inr r"
      and f1: "f1 = f\<lparr>types := r\<rparr>"
    by (cases "register_sweep (spec_apigen root) (api f) (Inr (types f))")
       (auto simp: registerTypes_def)
  from r have "register_sweep (spec_apigen root) (api f) (Inr r) = Inr r"
    unfolding register_sweep_eq by (rule register_all_again) simp
  with f1 show ?thesis by (simp add: registerTypes_def)
qed

section \<open>The claims\<close>

subsection \<open>The path expression and the signature\<close>

text \<open>
  C1, as the generator has it. Where the template is a text without placeholders followed
  by the placeholders \<^verbatim>\<open>/{name}\<close> of its path parameters, in their order, the path
  expression is \<^verbatim>\<open>${this.ROOT_PATH}\<close> and the template with every \<^verbatim>\<open>{name}\<close> replaced in
  place by \<^verbatim>\<open>${name}\<close>. For the template \<^verbatim>\<open>/projects/{id}/buckets\<close> with the path
  parameter \<^verbatim>\<open>id\<close>, the path expression has no \<^verbatim>\<open>//\<close>, and it has \<^verbatim>\<open>{id}\<close> inside the
  interpolation \<^verbatim>\<open>${id}\<close> only.
\<close>

theorem trailing_placeholders_expand_in_place:
  assumes "Path m = pre @ concat (map (\<lambda>p. ''/{'' @ Name p @ ''}'') (PathParams m))"
    and "CHR ''{'' \<notin> set pre" and "\<not> strings_Contains pre ''//''"
    and "pre = [] \<or> last pre \<noteq> CHR ''/''"
    and "\<forall>p\<in>set (PathParams m). CHR ''/'' \<notin> set (Name p) \<and> CHR ''{'' \<notin> set (Name p)"
  shows "snd (getArgsAndPath D m) = ''${this.ROOT_PATH}'' @ expand_in_place (Path m)
         \<and> \<not> strings_Contains (snd (getArgsAndPath E buckets_endpoint)) ''//''
         \<and> \<not> strings_Contains
               (strings_ReplaceAll (snd (getArgsAndPath E buckets_endpoint)) ''${id}'' [])
               ''{id}''"
proof -
  have "snd (getArgsAndPath D m)
          = ''${this.ROOT_PATH}'' @ pre
            @ concat (map (\<lambda>p. ''/${'' @ Name p @ ''}'') (PathParams m))"
    using assms by (intro path_of_trailing_placeholders) auto
  moreover have "expand_in_place (Path m)
          = pre @ concat (map (\<lambda>p. ''/${'' @ Name p @ ''}'') (PathParams m))"
  proof -
    have "expand_in_place (concat (map (\<lambda>p. ''/{'' @ Name p @ ''}'') (PathParams m)))
            = concat (map (\<lambda>p. ''/${'' @ Name p @ ''}'') (PathParams m))"
      using assms(5) by (intro expand_in_place_placeholders) auto
    then show ?thesis
      by (simp only: assms(1) expand_in_place_append expand_in_place_no_brace [OF assms(2)])
  qed
  moreover have "snd (getArgsAndPath E buckets_endpoint) = ''${this.ROOT_PATH}/projects/${id}''"
    unfolding getArgsAndPath_eq snd_conv by code_simp
  moreover have "\<not> strings_Contains ''${this.ROOT_PATH}/projects/${id}'' ''//''"
    by code_simp
  moreover have "\<not> strings_Contains
      (strings_ReplaceAll ''${this.ROOT_PATH}/projects/${id}'' ''${id}'' []) ''{id}''"
    by code_simp
  ultimately show ?thesis by simp
qed

theorem trailing_placeholders_expand_in_place_witness:
  "Path UpdateBucket
     = ''/buckets'' @ concat (map (\<lambda>p. ''/{'' @ Name p @ ''}'') (PathParams UpdateBucket))
   \<and> snd (getArgsAndPath (spec_apigen ''/api/v0'') UpdateBucket)
     = ''${this.ROOT_PATH}/buckets/${project}/${bucket}''
   \<and> \<not> strings_Contains
         (snd (getArgsAndPath (spec_apigen ''/api/v0'') buckets_endpoint)) ''//''"
proof -
  have 1: "Path UpdateBucket
     = ''/buckets'' @ concat (map (\<lambda>p. ''/{'' @ Name p @ ''}'') (PathParams UpdateBucket))"
    by code_simp
  have 2: "CHR ''{'' \<notin> set ''/buckets''" by simp
  have 3: "\<not> strings_Contains ''/buckets'' ''//''" by code_simp
  have 4: "''/buckets'' = [] \<or> last ''/buckets'' \<noteq> CHR ''/''" by simp
  have 5: "\<forall>p\<in>set (PathParams UpdateBucket).
             CHR ''/'' \<notin> set (Name p) \<and> CHR ''{'' \<notin> set (Name p)"
    by code_simp
  have 6: "expand_in_place (Path UpdateBucket) = ''/buckets/${project}/${bucket}''"
    by code_simp
  from trailing_placeholders_expand_in_place [OF 1 2 3 4 5, of "spec_apigen ''/api/v0''" "spec_apigen ''/api/v0''"]
    1 6 show ?thesis by simp
qed

text \<open>
  For the template \<^verbatim>\<open>/projects/{id}/buckets\<close> the path expression has the substring
  \<^verbatim>\<open>{id}\<close>, in its interpolation, and is not the template with its placeholder replaced in
  place.
\<close>

theorem buckets_path_counterexample:
  "strings_Contains (snd (getArgsAndPath (spec_apigen ''/api/v0'') buckets_endpoint)) ''{id}''
   \<and> snd (getArgsAndPath (spec_apigen ''/api/v0'') buckets_endpoint)
       \<noteq> ''${this.ROOT_PATH}'' @ expand_in_place (Path buckets_endpoint)"
  by code_simp


text \<open>
  C2, as the generator has it. Where the names and type names are plain, the arguments of
  the signature are the parameters joined by a comma and a space: the request if there is
  one, the path parameters in declaration order, the query parameters in declaration order,
  N + M of them and one more with a request. Where the path parameters are declared in the
  order of the placeholders of the template, every path parameter stands in the signature
  at the place of its placeholder.
\<close>

theorem signature_has_the_parameters_in_order:
  assumes "\<forall>np\<in>set (signature_params D m). plain_name (fst np) \<and> plain_name (snd np)"
  shows "fst (getArgsAndPath D m)
           = strings_Join
               ((if Request m = None then []
                 else [''request: '' @ TypescriptTypeName D (requestType D m)])
                @ map (\<lambda>p. Name p @ '': '' @ TypescriptTypeName D (namedType D p m ''path''))
                    (PathParams m)
                @ map (\<lambda>p. Name p @ '': '' @ TypescriptTypeName D (namedType D p m ''query''))
                    (QueryParams m))
               '', ''
         \<and> length
               ((if Request m = None then []
                 else [''request: '' @ TypescriptTypeName D (requestType D m)])
                @ map (\<lambda>p. Name p @ '': '' @ TypescriptTypeName D (namedType D p m ''path''))
                    (PathParams m)
                @ map (\<lambda>p. Name p @ '': '' @ TypescriptTypeName D (namedType D p m ''query''))
                    (QueryParams m))
             = length (PathParams m) + length (QueryParams m)
               + (if Request m = None then 0 else 1)
         \<and> (placeholders (Path m) = map Name (PathParams m) \<longrightarrow>
              map (\<lambda>p. Name p @ '': '' @ TypescriptTypeName D (namedType D p m ''path''))
                (PathParams m)
              = map (\<lambda>(n, p). n @ '': '' @ TypescriptTypeName D (namedType D p m ''path''))
                  (zip (placeholders (Path m)) (PathParams m)))"
proof -
  have "map render_param (signature_params D m)
          = (if Request m = None then []
             else [''request: '' @ TypescriptTypeName D (requestType D m)])
            @ map (\<lambda>p. Name p @ '': '' @ TypescriptTypeName D (namedType D p m ''path''))
                (PathParams m)
            @ map (\<lambda>p. Name p @ '': '' @ TypescriptTypeName D (namedType D p m ''query''))
                (QueryParams m)"
    by (simp add: signature_params_def render_param_def comp_def)
  moreover
  have "fst (getArgsAndPath D m) = strings_Join (map render_param (signature_params D m)) '', ''"
    using assms by (simp only: getArgsAndPath_eq fst_conv Trim_rendered_params)
  moreover
  have "map (\<lambda>p. Name p @ '': '' @ TypescriptTypeName D (namedType D p m ''path'')) ps
          = map (\<lambda>(n, p). n @ '': '' @ TypescriptTypeName D (namedType D p m ''path''))
              (zip (map Name ps) ps)" for ps
    by (induction ps) simp_all
  ultimately show ?thesis by simp
qed

theorem signature_has_the_parameters_in_order_witness:
  "list_all (\<lambda>np. plain_name (fst np) \<and> plain_name (snd np))
     (signature_params (spec_apigen ''/api/v0'') UpdateBucket)
   \<and> placeholders (Path UpdateBucket) = map Name (PathParams UpdateBucket)
   \<and> length (PathParams UpdateBucket) = 2 \<and> length (QueryParams UpdateBucket) = 1
   \<and> Request UpdateBucket \<noteq> None
   \<and> fst (getArgsAndPath (spec_apigen ''/api/v0'') UpdateBucket)
       = strings_Join
           [''request: User'', ''project: string'', ''bucket: BucketName'', ''cursor: string'']
           '', ''
   \<and> fst (getArgsAndPath (spec_apigen ''/api/v0'') UpdateBucket)
       = ''request: User, project: string, bucket: BucketName, cursor: string''"
proof -
  have 1: "\<forall>np\<in>set (signature_params (spec_apigen ''/api/v0'') UpdateBucket).
      plain_name (fst np) \<and> plain_name (snd np)"
    by code_simp
  have 2: "placeholders (Path UpdateBucket) = map Name (PathParams UpdateBucket)"
    by code_simp
  have 3: "(if Request UpdateBucket = None then []
            else [''request: ''
                    @ TypescriptTypeName (spec_apigen ''/api/v0'')
                        (requestType (spec_apigen ''/api/v0'') UpdateBucket)])
           @ map (\<lambda>p. Name p @ '': ''
                    @ TypescriptTypeName (spec_apigen ''/api/v0'')
                        (namedType (spec_apigen ''/api/v0'') p UpdateBucket ''path''))
               (PathParams UpdateBucket)
           @ map (\<lambda>p. Name p @ '': ''
                    @ TypescriptTypeName (spec_apigen ''/api/v0'')
                        (namedType (spec_apigen ''/api/v0'') p UpdateBucket ''query''))
               (QueryParams UpdateBucket)
           = [''request: User'', ''project: string'', ''bucket: BucketName'',
              ''cursor: string'']"
    by code_simp
  have 4: "strings_Join
             [''request: User'', ''project: string'', ''bucket: BucketName'', ''cursor: string'']
             '', ''
           = ''request: User, project: string, bucket: BucketName, cursor: string''"
    by code_simp
  have 5: "length (PathParams UpdateBucket) = 2" "length (QueryParams UpdateBucket) = 1"
    "Request UpdateBucket \<noteq> None"
    by code_simp+
  from signature_has_the_parameters_in_order [OF 1]
  have "fst (getArgsAndPath (spec_apigen ''/api/v0'') UpdateBucket)
       = strings_Join
           [''request: User'', ''project: string'', ''bucket: BucketName'', ''cursor: string'']
           '', ''"
    by (simp only: 3)
  with 1 2 4 5 show ?thesis by (simp add: list_all_iff)
qed

text \<open>
  An endpoint whose path parameters are declared in the other order than the placeholders
  of its template has them in the signature in the order of the declaration.
\<close>

theorem declaration_order_counterexample:
  "placeholders (Path swapped_endpoint) = [''project'', ''bucket'']
   \<and> fst (getArgsAndPath (spec_apigen ''/api/v0'') swapped_endpoint)
       = ''bucket: BucketName, project: string''"
  by code_simp


subsection \<open>The written file\<close>

text \<open>
  C10. In every run that ends well, the file at the destination holds the accumulated
  output of \<^verbatim>\<open>generateTS\<close> with every tab replaced by four spaces and nothing else
  changed, and so holds no tab.
\<close>

theorem written_text_has_no_tabs:
  assumes "MustWriteTS D writable a filepath fs = Inr fs'"
  shows "\<exists>f. generateTS D (newTSGenFile D filepath a) = Inr f
           \<and> fs' filepath
               = Some (concat (map (\<lambda>c. if c = CHR 0x09 then ''    '' else [c]) (result f)))
           \<and> CHR 0x09
               \<notin> set (concat (map (\<lambda>c. if c = CHR 0x09 then ''    '' else [c]) (result f)))"
proof -
  from assms obtain f where f: "generateTS D (newTSGenFile D filepath a) = Inr f"
    and w: "tsGenFile_write writable f fs = Inr fs'"
    by (auto simp: MustWriteTS_def split: sum.splits)
  from f have "path f = filepath"
    by (auto simp: generateTS_eq newTSGenFile_def split: sum.splits)
  with w have "fs' filepath = Some (write_content f)"
    by (auto simp: tsGenFile_write_def os_WriteFile_def split: if_splits)
  moreover have "CHR 0x09
      \<notin> set (concat (map (\<lambda>c. if c = CHR 0x09 then ''    '' else [c]) (result f)))"
    by auto
  ultimately show ?thesis using f by (simp add: write_content_eq)
qed

theorem written_text_has_no_tabs_witness:
  "MustWriteTS (spec_apigen ''/api/v0'') always_writable empty_users_api ''users.ts'' no_files
     = Inr (no_files(''users.ts'' \<mapsto> empty_users_module))
   \<and> (\<exists>f. generateTS (spec_apigen ''/api/v0'')
               (newTSGenFile (spec_apigen ''/api/v0'') ''users.ts'' empty_users_api) = Inr f
          \<and> (no_files(''users.ts'' \<mapsto> empty_users_module)) ''users.ts''
              = Some (concat (map (\<lambda>c. if c = CHR 0x09 then ''    '' else [c]) (result f)))
          \<and> CHR 0x09
              \<notin> set (concat (map (\<lambda>c. if c = CHR 0x09 then ''    '' else [c]) (result f))))"
  using written_text_has_no_tabs [OF run_empty_users_api [of "''users.ts''" no_files]]
    run_empty_users_api [of "''users.ts''" no_files]
  by simp

subsection \<open>The methods of a class\<close>

text \<open>
  C5. The class that \<^verbatim>\<open>createAPIClient\<close> emits for a group has, between its two constants
  and its closing brace, one method per endpoint of the group, in their order, and every
  method ends with the branch on a successful response, which returns the parsed body where
  the endpoint has a response type and returns nothing where it has none, and with the
  failure branch, which parses the error payload and throws an error with its message. This
  is so with or without request and response types.
\<close>

theorem every_method_has_both_branches:
  "result (createAPIClient D grp f)
     = result f
       @ nl @ ''export class '' @ capitalize D (Prefix grp) @ ''HttpApi''
       @ ToUpper D (Version (api f)) @ '' {'' @ nl
       @ tab @ ''private readonly http: HttpClient = new HttpClient();'' @ nl
       @ tab @ ''private readonly ROOT_PATH: string = '' @ sq @ endpointBasePath D (api f)
       @ ''/'' @ Prefix grp @ sq @ '';'' @ nl
       @ concat (map (\<lambda>m.
           nl @ signature_line D m @ path_lines D m @ dispatch_line D m
           @ tab @ tab @ ''if (response.ok) {'' @ nl
           @ tab @ tab @ tab
           @ (case Response m of
                None \<Rightarrow> ''return;''
              | Some t \<Rightarrow> ''return response.json().then((body) => body as ''
                           @ TypescriptTypeName D (responseType D m) @ '');'')
           @ nl
           @ tab @ tab @ ''}'' @ nl
           @ tab @ tab @ ''const err = await response.json();'' @ nl
           @ tab @ tab @ ''throw new Error(err.error);'' @ nl
           @ tab @ ''}'' @ nl) (endpoints grp))
       @ ''}'' @ nl"
proof -
  have "method_text D m
          = nl @ signature_line D m @ path_lines D m @ dispatch_line D m
            @ tab @ tab @ ''if (response.ok) {'' @ nl
            @ tab @ tab @ tab
            @ (case Response m of
                 None \<Rightarrow> ''return;''
               | Some t \<Rightarrow> ''return response.json().then((body) => body as ''
                            @ TypescriptTypeName D (responseType D m) @ '');'')
            @ nl
            @ tab @ tab @ ''}'' @ nl
            @ tab @ tab @ ''const err = await response.json();'' @ nl
            @ tab @ tab @ ''throw new Error(err.error);'' @ nl
            @ tab @ ''}'' @ nl" for m
    by (cases "Response m") (simp_all add: method_text_def guarded_branches_def)
  then have mt: "method_text D
          = (\<lambda>m. nl @ signature_line D m @ path_lines D m @ dispatch_line D m
               @ tab @ tab @ ''if (response.ok) {'' @ nl
               @ tab @ tab @ tab
               @ (case Response m of
                    None \<Rightarrow> ''return;''
                  | Some t \<Rightarrow> ''return response.json().then((body) => body as ''
                               @ TypescriptTypeName D (responseType D m) @ '');'')
               @ nl
               @ tab @ tab @ ''}'' @ nl
               @ tab @ tab @ ''const err = await response.json();'' @ nl
               @ tab @ tab @ ''throw new Error(err.error);'' @ nl
               @ tab @ ''}'' @ nl)"
    by (rule ext)
  show ?thesis
    unfolding createAPIClient_eq class_text_def mt by simp
qed




subsection \<open>The scenario of the users group\<close>

text \<open>
  C7, as the generator has it. For the group \<^verbatim>\<open>users\<close> with the endpoint \<^verbatim>\<open>GetUser\<close>
  (GET \<^verbatim>\<open>/users/{id}\<close>, path parameter \<^verbatim>\<open>id\<close>, response \<^verbatim>\<open>User\<close>), the class has the
  base path \<^verbatim>\<open><root>/users\<close>, and its method builds the path
  \<^verbatim>\<open>${this.ROOT_PATH}/users/${id}\<close>: the text of the template before its placeholder stays
  under the root path. The method awaits a GET and returns the parsed \<^verbatim>\<open>User\<close> on
  success.
\<close>

theorem users_scenario_class:
  "result (createAPIClient (spec_apigen root) users_group
             (newTSGenFile (spec_apigen root) filepath users_api))
     = nl @ ''export class UsersHttpApiV0 {'' @ nl
       @ tab @ ''private readonly http: HttpClient = new HttpClient();'' @ nl
       @ tab @ ''private readonly ROOT_PATH: string = '' @ sq @ root @ ''/users'' @ sq @ '';'' @ nl
       @ nl
       @ tab @ ''public async GetUser(id: string): Promise<User> {'' @ nl
       @ tab @ tab @ ''const fullPath = '' @ bq @ ''${this.ROOT_PATH}/users/${id}'' @ bq @ '';'' @ nl
       @ tab @ tab @ ''const response = await this.http.get(fullPath);'' @ nl
       @ tab @ tab @ ''if (response.ok) {'' @ nl
       @ tab @ tab @ tab @ ''return response.json().then((body) => body as User);'' @ nl
       @ tab @ tab @ ''}'' @ nl
       @ tab @ tab @ ''const err = await response.json();'' @ nl
       @ tab @ tab @ ''throw new Error(err.error);'' @ nl
       @ tab @ ''}'' @ nl
       @ ''}'' @ nl"
proof -
  have m: "method_text (spec_apigen root) GetUser
             = nl
               @ tab @ ''public async GetUser(id: string): Promise<User> {'' @ nl
               @ tab @ tab @ ''const fullPath = '' @ bq @ ''${this.ROOT_PATH}/users/${id}'' @ bq
               @ '';'' @ nl
               @ tab @ tab @ ''const response = await this.http.get(fullPath);'' @ nl
               @ tab @ tab @ ''if (response.ok) {'' @ nl
               @ tab @ tab @ tab @ ''return response.json().then((body) => body as User);'' @ nl
               @ tab @ tab @ ''}'' @ nl
               @ tab @ tab @ ''const err = await response.json();'' @ nl
               @ tab @ tab @ ''throw new Error(err.error);'' @ nl
               @ tab @ ''}'' @ nl"
    by code_simp
  have c: "capitalize (spec_apigen root) ''users'' = ''Users''" "ToUpper (spec_apigen root) ''v0'' = ''V0''"
    by code_simp+
  have b: "endpointBasePath (spec_apigen root) a = root" for a
    by (simp add: spec_apigen_def)
  show ?thesis
    by (simp add: createAPIClient_eq newTSGenFile_def class_text_def users_group_def
        users_api_def m c b)
qed

text \<open>
  The path of the claim, \<^verbatim>\<open>${ROOT_PATH}/${id}\<close>, is not the path expression of the
  method and occurs nowhere in the class, with or without \<^verbatim>\<open>this.\<close> before the constant.
\<close>

theorem users_scenario_path_counterexample:
  "snd (getArgsAndPath (spec_apigen ''/api/v0'') GetUser) \<noteq> ''${ROOT_PATH}/${id}''
   \<and> \<not> strings_Contains
         (result (createAPIClient (spec_apigen ''/api/v0'') users_group
                    (newTSGenFile (spec_apigen ''/api/v0'') ''users.ts'' users_api)))
         ''${ROOT_PATH}/${id}''
   \<and> \<not> strings_Contains
         (result (createAPIClient (spec_apigen ''/api/v0'') users_group
                    (newTSGenFile (spec_apigen ''/api/v0'') ''users.ts'' users_api)))
         ''${this.ROOT_PATH}/${id}''"
  by code_simp

subsection \<open>Templates and parameters that do not match\<close>

text \<open>
  C8, as the generator has it. An endpoint whose placeholders and path parameters do not
  match raises no error and does not end the run: where the registration of the types
  succeeds and the file can be written, the run writes a module, and the module has the
  method of that endpoint. The expansion returns the path that it builds from the text of
  the template before its first \<^verbatim>\<open>{\<close> and from the declared path parameters.
\<close>

theorem mismatched_endpoint_is_generated:
  assumes "grp \<in> set (EndpointGroups a)" and "m \<in> set (endpoints grp)"
    and "placeholders (Path m) \<noteq> map Name (PathParams m)"
    and "register_sweep D a (Inr (NewTypes D)) = Inr r" and "writable filepath"
  shows "(\<exists>before after.
            MustWriteTS D writable a filepath fs
              = Inr (fs(filepath \<mapsto>
                         before @ strings_ReplaceAll (method_text D m) tab ''    '' @ after)))
         \<and> snd (getArgsAndPath D m)
             = strings_ReplaceAll
                 (''${this.ROOT_PATH}'' @ takeWhile (\<lambda>c. c \<noteq> CHR ''{'') (Path m)
                    @ concat (map (\<lambda>p. ''/${'' @ Name p @ ''}'') (PathParams m)))
                 ''//'' ''/''"
proof -
  have "\<exists>before after. module_text D a r = before @ method_text D m @ after"
    using assms(1,2) by (rule module_text_has_method)
  then obtain x y where "module_text D a r = x @ method_text D m @ y"
    by (elim exE)
  then have "strings_ReplaceAll (module_text D a r) tab ''    ''
      = strings_ReplaceAll x tab ''    '' @ strings_ReplaceAll (method_text D m) tab ''    ''
        @ strings_ReplaceAll y tab ''    ''"
    by (simp only: replace_tab_append)
  with assms(4,5) have "MustWriteTS D writable a filepath fs
      = Inr (fs(filepath \<mapsto>
               strings_ReplaceAll x tab ''    ''
               @ strings_ReplaceAll (method_text D m) tab ''    ''
               @ strings_ReplaceAll y tab ''    ''))"
    by (simp only: MustWriteTS_eq sum.case if_True)
  then have "\<exists>before after.
            MustWriteTS D writable a filepath fs
              = Inr (fs(filepath \<mapsto>
                         before @ strings_ReplaceAll (method_text D m) tab ''    '' @ after))"
    by (intro exI)
  then show ?thesis by (simp add: getArgsAndPath_eq)
qed

theorem mismatched_endpoint_is_generated_witness:
  "\<lparr>Prefix = ''users'', endpoints = [placeholder_only, param_only]\<rparr>
      \<in> set (EndpointGroups mismatch_api)
   \<and> placeholder_only \<in> set [placeholder_only, param_only]
   \<and> placeholders (Path placeholder_only) \<noteq> map Name (PathParams placeholder_only)
   \<and> register_sweep (spec_apigen ''/api/v0'') mismatch_api
         (Inr (NewTypes (spec_apigen ''/api/v0''))) = Inr []
   \<and> always_writable ''users.ts''
   \<and> (\<exists>before after.
         MustWriteTS (spec_apigen ''/api/v0'') always_writable mismatch_api ''users.ts'' no_files
           = Inr (no_files(''users.ts'' \<mapsto>
                    before
                    @ strings_ReplaceAll (method_text (spec_apigen ''/api/v0'') placeholder_only)
                        tab ''    ''
                    @ after)))
   \<and> snd (getArgsAndPath (spec_apigen ''/api/v0'') placeholder_only)
       = ''${this.ROOT_PATH}/users/''"
proof -
  have 1: "\<lparr>Prefix = ''users'', endpoints = [placeholder_only, param_only]\<rparr>
      \<in> set (EndpointGroups mismatch_api)"
    by (simp add: mismatch_api_def)
  have 2: "placeholder_only
      \<in> set (endpoints \<lparr>Prefix = ''users'', endpoints = [placeholder_only, param_only]\<rparr>)"
    by simp
  have 3: "placeholders (Path placeholder_only) \<noteq> map Name (PathParams placeholder_only)"
    by code_simp
  have 4: "register_sweep (spec_apigen ''/api/v0'') mismatch_api
         (Inr (NewTypes (spec_apigen ''/api/v0''))) = Inr []"
    by code_simp
  have 5: "always_writable ''users.ts''"
    by (simp add: always_writable_def)
  have 6: "strings_ReplaceAll
             (''${this.ROOT_PATH}''
                @ takeWhile (\<lambda>c. c \<noteq> CHR ''{'') (Path placeholder_only)
                @ concat (map (\<lambda>p. ''/${'' @ Name p @ ''}'') (PathParams placeholder_only)))
             ''//'' ''/''
           = ''${this.ROOT_PATH}/users/''"
    by code_simp
  have 7: "placeholder_only \<in> set [placeholder_only, param_only]"
    by simp
  note run = mismatched_endpoint_is_generated
    [where writable = always_writable and filepath = "''users.ts''" and fs = no_files,
      OF 1 2 3 4 5]
  from run have a: "\<exists>before after.
         MustWriteTS (spec_apigen ''/api/v0'') always_writable mismatch_api ''users.ts'' no_files
           = Inr (no_files(''users.ts'' \<mapsto>
                    before
                    @ strings_ReplaceAll (method_text (spec_apigen ''/api/v0'') placeholder_only)
                        tab ''    ''
                    @ after))"
    by (rule conjunct1)
  from run have "snd (getArgsAndPath (spec_apigen ''/api/v0'') placeholder_only)
      = strings_ReplaceAll
          (''${this.ROOT_PATH}''
             @ takeWhile (\<lambda>c. c \<noteq> CHR ''{'') (Path placeholder_only)
             @ concat (map (\<lambda>p. ''/${'' @ Name p @ ''}'') (PathParams placeholder_only)))
          ''//'' ''/''"
    by (rule conjunct2)
  then have b: "snd (getArgsAndPath (spec_apigen ''/api/v0'') placeholder_only)
      = ''${this.ROOT_PATH}/users/''"
    by (simp only: 6)
  from 1 7 3 4 5 a b show ?thesis by (intro conjI)
qed


text \<open>
  The run on the two mismatched endpoints ends well and writes their module.
\<close>

theorem mismatch_counterexample:
  "MustWriteTS (spec_apigen ''/api/v0'') always_writable mismatch_api ''users.ts'' no_files
     = Inr (no_files(''users.ts'' \<mapsto> mismatch_module))
   \<and> MustWriteTS (spec_apigen ''/api/v0'') always_writable mismatch_api ''users.ts'' no_files
       \<noteq> Inl TemplateMismatchError"
proof -
  have sweep: "register_sweep (spec_apigen ''/api/v0'') mismatch_api
                 (Inr (NewTypes (spec_apigen ''/api/v0''))) = Inr []"
    by code_simp
  have replaced: "strings_ReplaceAll (module_text (spec_apigen ''/api/v0'') mismatch_api [])
                    tab ''    '' = mismatch_module"
    by code_simp
  have "MustWriteTS (spec_apigen ''/api/v0'') always_writable mismatch_api ''users.ts'' no_files
          = Inr (no_files(''users.ts'' \<mapsto> mismatch_module))"
    by (simp only: MustWriteTS_eq sweep sum.case replaced always_writable_def if_True)
  then show ?thesis by simp
qed

subsection \<open>The registration of the types\<close>

text \<open>
  C3, at an endpoint whose only parameter is a path parameter of the composite type
  \<^verbatim>\<open>ProjectID\<close>. The sweep of \<^verbatim>\<open>registerTypes\<close> leaves the registry as it was, whatever
  \<^verbatim>\<open>Register\<close> does: the type of the path parameter is not registered, though the
  signature of the method names it. With the same parameter in the query, the sweep
  registers the type.
\<close>

theorem path_parameter_types_are_not_registered:
  "registerTypes D (newTSGenFile D filepath (projects_api GetProject))
     = Inr (newTSGenFile D filepath (projects_api GetProject))
   \<and> registerTypes (spec_apigen root)
         (newTSGenFile (spec_apigen root) filepath (projects_api FindProject))
     = Inr ((newTSGenFile (spec_apigen root) filepath (projects_api FindProject))
              \<lparr>types := [(ProjectID, entry_of ProjectID)]\<rparr>)
   \<and> fst (getArgsAndPath (spec_apigen root) GetProject) = ''id: ProjectID''"
proof -
  have 1: "registerTypes D (newTSGenFile D filepath (projects_api GetProject))
     = Inr (newTSGenFile D filepath (projects_api GetProject))"
    by (simp add: registerTypes_def register_sweep_def registerTypes_method_def
        projects_api_def GetProject_def newTSGenFile_def)
  have reg: "register_type ProjectID [] = Inr [(ProjectID, entry_of ProjectID)]"
    by code_simp
  have el: "TypeRef_getElementaryType ProjectID = ProjectID"
    by code_simp
  have "register_sweep (spec_apigen root) (projects_api FindProject) (Inr [])
          = Inr [(ProjectID, entry_of ProjectID)]"
    by (simp add: register_sweep_eq sweep_types_def method_types_def projects_api_def
        FindProject_def register_step_spec reg)
       (simp add: spec_apigen_def el register_step_spec [unfolded spec_apigen_def] reg)
  then have 2: "registerTypes (spec_apigen root)
         (newTSGenFile (spec_apigen root) filepath (projects_api FindProject))
     = Inr ((newTSGenFile (spec_apigen root) filepath (projects_api FindProject))
              \<lparr>types := [(ProjectID, entry_of ProjectID)]\<rparr>)"
    by (simp add: registerTypes_def newTSGenFile_def
        spec_apigen_def [where root = root, THEN arg_cong [where f = NewTypes]])
  have 3: "fst (getArgsAndPath (spec_apigen root) GetProject) = ''id: ProjectID''"
    by code_simp
  from 1 2 3 show ?thesis by simp
qed

text \<open>
  C9, for the registry of the specification. A TypeRef that has been registered is
  registered again, at once or after the registration of another TypeRef, with the emitted
  name that it had and with no change of the registry; a composite has exactly one
  definition then; and a second sweep of \<^verbatim>\<open>registerTypes\<close> over the schema leaves the
  registry of the first sweep as it is.
\<close>

theorem registration_is_idempotent:
  assumes "wf_registry reg"
    and "TypeRegistry_Register t reg = Inr (n, reg1)"
    and "TypeRegistry_Register t' reg1 = Inr (n', reg2)"
    and "registerTypes (spec_apigen root) f = Inr f1"
  shows "TypeRegistry_Register t reg1 = Inr (n, reg1)
         \<and> TypeRegistry_Register t reg2 = Inr (n, reg2)
         \<and> TypeRegistry_Register t' reg2 = Inr (n', reg2)
         \<and> (t = Composite c fs \<longrightarrow>
              length (filter (\<lambda>d. emitted d = n) (GenerateDefinitions reg1)) = 1
              \<and> length (filter (\<lambda>d. emitted d = n) (GenerateDefinitions reg2)) = 1)
         \<and> registerTypes (spec_apigen root) f1 = Inr f1"
proof -
  from assms(2) have t: "register_type t reg = Inr reg1" and n: "n = EmittedName t"
    by (cases "register_type t reg"; simp add: TypeRegistry_Register_def)+
  from assms(3) have t': "register_type t' reg1 = Inr reg2" and n': "n' = EmittedName t'"
    by (cases "register_type t' reg1"; simp add: TypeRegistry_Register_def)+
  from t' have mono: "set (map fst reg1) \<subseteq> set (map fst reg2)"
    by (rule register_keys_mono)
  from t have "register_type t reg1 = Inr reg1" by (rule register_again) simp
  then have 1: "TypeRegistry_Register t reg1 = Inr (n, reg1)"
    by (simp add: TypeRegistry_Register_def n)
  from t mono have "register_type t reg2 = Inr reg2" by (rule register_again)
  then have 2: "TypeRegistry_Register t reg2 = Inr (n, reg2)"
    by (simp add: TypeRegistry_Register_def n)
  from t' have "register_type t' reg2 = Inr reg2" by (rule register_again) simp
  then have 3: "TypeRegistry_Register t' reg2 = Inr (n', reg2)"
    by (simp add: TypeRegistry_Register_def n')
  have 4: "length (filter (\<lambda>d. emitted d = n) (GenerateDefinitions reg1)) = 1
         \<and> length (filter (\<lambda>d. emitted d = n) (GenerateDefinitions reg2)) = 1"
    if c: "t = Composite c fs"
  proof -
    from assms(1) t have wf1: "wf_registry reg1" by (rule register_wf)
    from wf1 t' have wf2: "wf_registry reg2" by (rule register_wf)
    from t c have in1: "t \<in> set (map fst reg1)" by (intro register_key_present) auto
    with mono have in2: "t \<in> set (map fst reg2)" by auto
    from one_definition [OF wf1 in1] one_definition [OF wf2 in2] show ?thesis
      by (simp add: n)
  qed
  from assms(4) have 5: "registerTypes (spec_apigen root) f1 = Inr f1"
    by (rule registerTypes_again)
  from 1 2 3 4 5 show ?thesis by blast
qed

theorem registration_is_idempotent_witness:
  "wf_registry []
   \<and> TypeRegistry_Register User [] = Inr (''User'', [(User, entry_of User)])
   \<and> TypeRegistry_Register (ArrayOf User) [(User, entry_of User)]
       = Inr (''User[]'', [(User, entry_of User), (ArrayOf User, entry_of (ArrayOf User))])
   \<and> registerTypes (spec_apigen ''/api/v0'')
         (newTSGenFile (spec_apigen ''/api/v0'') ''users.ts'' two_users_api)
       = Inr ((newTSGenFile (spec_apigen ''/api/v0'') ''users.ts'' two_users_api)
                \<lparr>types := [(User, entry_of User), (ArrayOf User, entry_of (ArrayOf User))]\<rparr>)
   \<and> TypeRegistry_Register User [(User, entry_of User)]
       = Inr (''User'', [(User, entry_of User)])
   \<and> TypeRegistry_Register User
         [(User, entry_of User), (ArrayOf User, entry_of (ArrayOf User))]
       = Inr (''User'', [(User, entry_of User), (ArrayOf User, entry_of (ArrayOf User))])
   \<and> length (filter (\<lambda>d. emitted d = ''User'')
        (GenerateDefinitions [(User, entry_of User), (ArrayOf User, entry_of (ArrayOf User))]))
       = 1
   \<and> registerTypes (spec_apigen ''/api/v0'')
         ((newTSGenFile (spec_apigen ''/api/v0'') ''users.ts'' two_users_api)
            \<lparr>types := [(User, entry_of User), (ArrayOf User, entry_of (ArrayOf User))]\<rparr>)
       = Inr ((newTSGenFile (spec_apigen ''/api/v0'') ''users.ts'' two_users_api)
                \<lparr>types := [(User, entry_of User), (ArrayOf User, entry_of (ArrayOf User))]\<rparr>)"
proof -
  have 1: "wf_registry []" by (simp add: wf_registry_def)
  have 2: "TypeRegistry_Register User [] = Inr (''User'', [(User, entry_of User)])"
    by code_simp
  have 3: "TypeRegistry_Register (ArrayOf User) [(User, entry_of User)]
       = Inr (''User[]'', [(User, entry_of User), (ArrayOf User, entry_of (ArrayOf User))])"
    by code_simp
  have sweep: "register_sweep (spec_apigen ''/api/v0'') two_users_api (Inr [])
       = Inr [(User, entry_of User), (ArrayOf User, entry_of (ArrayOf User))]"
    by code_simp
  have 4: "registerTypes (spec_apigen ''/api/v0'')
         (newTSGenFile (spec_apigen ''/api/v0'') ''users.ts'' two_users_api)
       = Inr ((newTSGenFile (spec_apigen ''/api/v0'') ''users.ts'' two_users_api)
                \<lparr>types := [(User, entry_of User), (ArrayOf User, entry_of (ArrayOf User))]\<rparr>)"
    by (simp add: registerTypes_def newTSGenFile_def sweep spec_apigen_def [where root = "''/api/v0''", THEN arg_cong [where f = NewTypes]])
  have 5: "User = Composite ''User'' [(''name'', Primitive ''string'')]"
    by (simp add: User_def)
  from registration_is_idempotent [OF 1 2 3 4, of "''User''" "[(''name'', Primitive ''string'')]"]
    1 2 3 4 5
  show ?thesis by simp
qed

end
